theory Spec2Isabelle
  imports Complex_Main "HOL-Library.Word" "HOL-Library.Log_Nat"
begin

section \<open>The tile handler of \<open>src/functions/handler.ts\<close>\<close>

text \<open>
  A shallow embedding of the raster tile handler: the tile addressing
  (\<open>getResolution\<close>, \<open>tileToWebMercator\<close>), the window resolver
  (\<open>webMercatorToPixel\<close>), the band compositor (\<open>convertRastersToPng\<close>) and the
  handler \<open>tile\<close> itself. The repository holds a second, earlier copy of the handler
  (\<open>unnamed/part_000\<close>) whose bounding box and alpha byte differ; it is modelled
  beside the first under names ending in \<open>_part_000\<close>.
\<close>

subsection \<open>Numbers\<close>

text \<open>
  A JavaScript number is a binary64 value: \<open>NaN\<close>, an infinity, or a finite value.
  \<open>Num a\<close> is the finite value \<open>a\<close>, with \<open>Num 0\<close> the positive zero, and
  \<open>NegZero\<close> is the negative zero. The real number in \<open>Num\<close> is meant to be one
  that binary64 has; every operation below returns such a number, because it rounds.
\<close>

datatype number = NaN | NegInf | Num real | NegZero | PosInf

text \<open>The integer part of the binary logarithm of a positive real.\<close>

definition ilog2 :: "real \<Rightarrow> int" where
  "ilog2 a = (if 1 \<le> a then bitlen \<lfloor>a\<rfloor> - 1 else - bitlen (\<lceil>1 / a\<rceil> - 1))"

text \<open>The nearest integer, a tie going to the even one.\<close>

definition round_half_even :: "real \<Rightarrow> int" where
  "round_half_even q =
     (if q - of_int \<lfloor>q\<rfloor> < 1 / 2 then \<lfloor>q\<rfloor>
      else if 1 / 2 < q - of_int \<lfloor>q\<rfloor> then \<lfloor>q\<rfloor> + 1
      else if even \<lfloor>q\<rfloor> then \<lfloor>q\<rfloor> else \<lfloor>q\<rfloor> + 1)"

text \<open>
  The exponent of the last place of the binary64 numbers around a positive real
  \<open>a\<close>: 53 significant bits, and never below the exponent of the subnormal numbers.
\<close>

definition quantum :: "real \<Rightarrow> int" where
  "quantum a = max (ilog2 a - 52) (- 1074)"

definition round_magnitude :: "real \<Rightarrow> real" where
  "round_magnitude a = of_int (round_half_even (a / 2 powi quantum a)) * 2 powi quantum a"

text \<open>
  Rounding a real result to binary64, to nearest with ties to even: a magnitude that
  rounds to \<open>2 ^ 1024\<close> or more is an infinity, and one that rounds to zero is a zero
  of the sign of the result.
\<close>

definition fl :: "real \<Rightarrow> number" where
  "fl x =
     (if x = 0 then Num 0
      else if 2 ^ 1024 \<le> round_magnitude \<bar>x\<bar> then (if 0 < x then PosInf else NegInf)
      else if round_magnitude \<bar>x\<bar> = 0 then (if 0 < x then Num 0 else NegZero)
      else Num (if 0 < x then round_magnitude \<bar>x\<bar> else - round_magnitude \<bar>x\<bar>))"

definition finite_number :: "number \<Rightarrow> bool" where
  "finite_number n = (case n of Num a \<Rightarrow> True | NegZero \<Rightarrow> True | _ \<Rightarrow> False)"

definition value_of :: "number \<Rightarrow> real" where
  "value_of n = (case n of Num a \<Rightarrow> a | _ \<Rightarrow> 0)"

definition signbit :: "number \<Rightarrow> bool" where
  "signbit n = (case n of NegInf \<Rightarrow> True | NegZero \<Rightarrow> True | Num a \<Rightarrow> a < 0 | _ \<Rightarrow> False)"

definition is_zero :: "number \<Rightarrow> bool" where
  "is_zero n = (n = Num 0 \<or> n = NegZero)"

definition is_inf :: "number \<Rightarrow> bool" where
  "is_inf n = (n = PosInf \<or> n = NegInf)"

definition zero_of :: "bool \<Rightarrow> number" where
  "zero_of negative = (if negative then NegZero else Num 0)"

definition inf_of :: "bool \<Rightarrow> number" where
  "inf_of negative = (if negative then NegInf else PosInf)"

text \<open>\<open>- a\<close>\<close>

definition nneg :: "number \<Rightarrow> number" where
  "nneg a =
     (case a of
        NaN \<Rightarrow> NaN
      | NegInf \<Rightarrow> PosInf
      | PosInf \<Rightarrow> NegInf
      | NegZero \<Rightarrow> Num 0
      | Num v \<Rightarrow> (if v = 0 then NegZero else Num (- v)))"

text \<open>\<open>a + b\<close>: an exact zero sum is the negative zero only if both operands are
  negative.\<close>

definition nadd :: "number \<Rightarrow> number \<Rightarrow> number" where
  "nadd a b =
     (if a = NaN \<or> b = NaN then NaN
      else if is_inf a then (if is_inf b \<and> b \<noteq> a then NaN else a)
      else if is_inf b then b
      else if value_of a + value_of b = 0 then zero_of (signbit a \<and> signbit b)
      else fl (value_of a + value_of b))"

text \<open>\<open>a - b\<close>\<close>

definition nsub :: "number \<Rightarrow> number \<Rightarrow> number" where
  "nsub a b = nadd a (nneg b)"

text \<open>\<open>a * b\<close>\<close>

definition nmul :: "number \<Rightarrow> number \<Rightarrow> number" where
  "nmul a b =
     (if a = NaN \<or> b = NaN then NaN
      else if is_inf a \<or> is_inf b
        then (if is_zero a \<or> is_zero b then NaN else inf_of (signbit a \<noteq> signbit b))
      else if value_of a * value_of b = 0 then zero_of (signbit a \<noteq> signbit b)
      else fl (value_of a * value_of b))"

text \<open>\<open>a / b\<close>\<close>

definition ndiv :: "number \<Rightarrow> number \<Rightarrow> number" where
  "ndiv a b =
     (if a = NaN \<or> b = NaN then NaN
      else if is_inf a then (if is_inf b then NaN else inf_of (signbit a \<noteq> signbit b))
      else if is_inf b then zero_of (signbit a \<noteq> signbit b)
      else if is_zero b then (if is_zero a then NaN else inf_of (signbit a \<noteq> signbit b))
      else if is_zero a then zero_of (signbit a \<noteq> signbit b)
      else fl (value_of a / value_of b))"

text \<open>
  \<open>Math.pow(2, z)\<close>. For an integer \<open>z\<close> the power of two is exact where binary64
  has it, infinite from \<open>z = 1024\<close> on and zero below the subnormal numbers; the two
  comparisons only spare the computation of a power that rounds to one of those. For
  a \<open>z\<close> that is not an integer the language leaves the last bits of the result to
  the implementation; the rounded power is taken.
\<close>

definition Math_pow2 :: "number \<Rightarrow> number" where
  "Math_pow2 z =
     (case z of
        NaN \<Rightarrow> NaN
      | NegInf \<Rightarrow> Num 0
      | PosInf \<Rightarrow> PosInf
      | NegZero \<Rightarrow> Num 1
      | Num v \<Rightarrow>
          (if 1024 \<le> v then PosInf
           else if v < - 1075 then Num 0
           else fl (if v = of_int \<lfloor>v\<rfloor> then 2 powi \<lfloor>v\<rfloor> else 2 powr v)))"

text \<open>\<open>Math.round(a)\<close>: the nearest integer, a half rounding up; a result of zero
  keeps the sign of \<open>a\<close>.\<close>

definition Math_round :: "number \<Rightarrow> number" where
  "Math_round n =
     (case n of
        Num a \<Rightarrow>
          (if \<lfloor>a + 1 / 2\<rfloor> = 0 then (if a < 0 then NegZero else Num 0)
           else Num (of_int \<lfloor>a + 1 / 2\<rfloor>))
      | _ \<Rightarrow> n)"

text \<open>The order that \<open>Math.min\<close> and \<open>Math.max\<close> use: \<open>NaN\<close> is comparable
  to nothing, and the negative zero is below the positive one.\<close>

definition number_le :: "number \<Rightarrow> number \<Rightarrow> bool" where
  "number_le a b =
     (a \<noteq> NaN \<and> b \<noteq> NaN \<and>
      (a = NegInf \<or> b = PosInf \<or>
       (finite_number a \<and> finite_number b \<and>
        (value_of a < value_of b \<or>
         (value_of a = value_of b \<and> (signbit a \<or> \<not> signbit b))))))"

text \<open>\<open>Math.min(a, b)\<close> and \<open>Math.max(a, b)\<close>: \<open>NaN\<close> as soon as one argument is.\<close>

definition Math_min :: "number \<Rightarrow> number \<Rightarrow> number" where
  "Math_min a b = (if a = NaN \<or> b = NaN then NaN else if number_le a b then a else b)"

definition Math_max :: "number \<Rightarrow> number \<Rightarrow> number" where
  "Math_max a b = (if a = NaN \<or> b = NaN then NaN else if number_le a b then b else a)"

subsection \<open>Constants\<close>

definition tileSize :: nat where
  "tileSize = 256"

text \<open>The literal \<open>20037508.3427892\<close> is the binary64 number nearest to it.\<close>

definition webMercatorExtent :: number where
  "webMercatorExtent = fl 20037508.3427892"

subsection \<open>Tile addressing\<close>

type_synonym bbox = "number \<times> number \<times> number \<times> number"

text \<open>\<open>(2 * webMercatorExtent) / (tileSize * Math.pow(2, z))\<close>\<close>

definition getResolution :: "number \<Rightarrow> number" where
  "getResolution z =
     ndiv (nmul (Num 2) webMercatorExtent) (nmul (Num (real tileSize)) (Math_pow2 z))"

text \<open>The box is returned in the order \<open>[minX, minY, maxX, maxY]\<close>.\<close>

definition tileToWebMercator :: "number \<Rightarrow> number \<Rightarrow> number \<Rightarrow> bbox" where
  "tileToWebMercator x y z =
     (let resolution = getResolution z;
          minX = nsub (nmul (nmul x (Num (real tileSize))) resolution) webMercatorExtent;
          maxY = nsub webMercatorExtent (nmul (nmul y (Num (real tileSize))) resolution);
          maxX = nsub (nmul (nmul (nadd x (Num 1)) (Num (real tileSize))) resolution)
                      webMercatorExtent;
          minY = nsub webMercatorExtent
                      (nmul (nmul (nadd y (Num 1)) (Num (real tileSize))) resolution)
      in (minX, minY, maxX, maxY))"

text \<open>
  The earlier copy computes the box inline in its handler, from
  \<open>resolution = 0.00028 * Math.pow(2, parseInt(z))\<close>, with no offset and no inversion
  of the row axis.
\<close>

definition resolution_part_000 :: "number \<Rightarrow> number" where
  "resolution_part_000 z = nmul (fl 0.00028) (Math_pow2 z)"

definition bbox_part_000 :: "number \<Rightarrow> number \<Rightarrow> number \<Rightarrow> bbox" where
  "bbox_part_000 x y z =
     (let tileSize = Num 256;
          resolution = resolution_part_000 z
      in (nmul (nmul x tileSize) resolution,
          nmul (nmul y tileSize) resolution,
          nmul (nmul (nadd x (Num 1)) tileSize) resolution,
          nmul (nmul (nadd y (Num 1)) tileSize) resolution))"

subsection \<open>Window resolver\<close>

text \<open>
  The image accessor of the raster library, as far as \<open>webMercatorToPixel\<close> reads it:
  \<open>getWidth()\<close>, \<open>getHeight()\<close>, the first two entries of \<open>getOrigin()\<close>, and
  \<open>getResolution()\<close>, which in the library returns the array \<open>[rx, ry, rz]\<close>; the
  field is \<open>None\<close> for an accessor without that method.
\<close>

record geoimage =
  image_width :: nat
  image_height :: nat
  image_origin :: "number \<times> number"
  image_resolution :: "number list option"

text \<open>
  An array used as a number is first joined to a string: the empty array reads as 0,
  an array of one number as that number (the negative zero prints as \<open>0\<close>), and a
  longer one, whose string has commas, as \<open>NaN\<close>.
\<close>

definition array_to_number :: "number list \<Rightarrow> number" where
  "array_to_number xs =
     (case xs of
        [] \<Rightarrow> Num 0
      | [x] \<Rightarrow> (if x = NegZero then Num 0 else x)
      | _ \<Rightarrow> NaN)"

text \<open>
  \<open>image.getResolution ? image.getResolution() : webMercatorExtent * 2 / imageWidth\<close>,
  as the number that the divisions below make of it.
\<close>

definition imageResolution :: "geoimage \<Rightarrow> number" where
  "imageResolution img =
     (case image_resolution img of
        Some r \<Rightarrow> array_to_number r
      | None \<Rightarrow> ndiv (nmul webMercatorExtent (Num 2)) (Num (real (image_width img))))"

text \<open>The window is returned in the order \<open>[left, top, right, bottom]\<close>.\<close>

definition webMercatorToPixel :: "bbox \<Rightarrow> geoimage \<Rightarrow> number \<times> number \<times> number \<times> number" where
  "webMercatorToPixel bbox img =
     (case bbox of (minX, minY, maxX, maxY) \<Rightarrow>
      case image_origin img of (imageMinX, imageMaxY) \<Rightarrow>
      let imageWidth = Num (real (image_width img));
          imageHeight = Num (real (image_height img));
          pixelMinX = Math_round (ndiv (nsub minX imageMinX) (imageResolution img));
          pixelMaxY = Math_round (ndiv (nsub imageMaxY minY) (imageResolution img));
          pixelMaxX = Math_round (ndiv (nsub maxX imageMinX) (imageResolution img));
          pixelMinY = Math_round (ndiv (nsub imageMaxY maxY) (imageResolution img));
          boundedPixelMinX = Math_max (Num 0) (Math_min pixelMinX imageWidth);
          boundedPixelMaxX = Math_max (Num 0) (Math_min pixelMaxX imageWidth);
          boundedPixelMinY = Math_max (Num 0) (Math_min pixelMinY imageHeight);
          boundedPixelMaxY = Math_max (Num 0) (Math_min pixelMaxY imageHeight)
      in (boundedPixelMinX, boundedPixelMinY, boundedPixelMaxX, boundedPixelMaxY))"


subsection \<open>Band compositor\<close>

text \<open>
  What a \<open>throw\<close> carries: the runtime's \<open>TypeError\<close> for a property read on
  \<open>undefined\<close> or \<open>null\<close>, or whatever a collaborator throws.
\<close>

datatype exn = TypeError | Thrown string

type_synonym byte = "8 word"

text \<open>
  Storing a number in a \<open>Buffer\<close> keeps its integer part modulo 256; \<open>NaN\<close>,
  the infinities, the zeros and \<open>undefined\<close> store 0.
\<close>

fun toUint8 :: "number \<Rightarrow> byte" where
  "toUint8 (Num a) = of_int (if 0 \<le> a then \<lfloor>a\<rfloor> else \<lceil>a\<rceil>)"
| "toUint8 a = 0"

text \<open>
  \<open>rasters[k][i]\<close>: the bands are an array of sample arrays. A missing sample of a
  band that is there is \<open>undefined\<close>, which stores as \<open>NaN\<close> does; a missing
  band is \<open>undefined\<close>, and reading an index of it throws.
\<close>

definition band_sample :: "number list \<Rightarrow> nat \<Rightarrow> number" where
  "band_sample band i = (if i < length band then band ! i else NaN)"

definition sample :: "number list list \<Rightarrow> nat \<Rightarrow> nat \<Rightarrow> exn + number" where
  "sample rasters k i =
     (if k < length rasters then Inr (band_sample (rasters ! k) i) else Inl TypeError)"

text \<open>
  One turn of the loop body: the four stores of pixel \<open>i\<close>, in the source's order.
  The alpha byte is 0 in \<open>handler.ts\<close> and 255 in the earlier copy, the only
  difference between the two loops, so it is a parameter here.
\<close>

definition pixel_step :: "byte \<Rightarrow> number list list \<Rightarrow> nat \<Rightarrow> byte list \<Rightarrow> exn + byte list" where
  "pixel_step alpha rasters i rgbaBuffer =
     (case sample rasters 0 i of
        Inl e \<Rightarrow> Inl e
      | Inr red \<Rightarrow>
          (case sample rasters 1 i of
             Inl e \<Rightarrow> Inl e
           | Inr green \<Rightarrow>
               (case sample rasters 2 i of
                  Inl e \<Rightarrow> Inl e
                | Inr blue \<Rightarrow>
                    Inr (rgbaBuffer[i * 4 := toUint8 red,
                                    i * 4 + 1 := toUint8 green,
                                    i * 4 + 2 := toUint8 blue,
                                    i * 4 + 3 := alpha]))))"

text \<open>\<open>for (let i = 0; i < width * height; i++)\<close>, from \<open>i\<close> on, with bound \<open>n\<close>.\<close>

function rgba_loop :: "byte \<Rightarrow> number list list \<Rightarrow> nat \<Rightarrow> nat \<Rightarrow> byte list \<Rightarrow> exn + byte list" where
  "rgba_loop alpha rasters n i rgbaBuffer =
     (if i < n
      then (case pixel_step alpha rasters i rgbaBuffer of
              Inl e \<Rightarrow> Inl e
            | Inr rgbaBuffer' \<Rightarrow> rgba_loop alpha rasters n (i + 1) rgbaBuffer')
      else Inr rgbaBuffer)"
  by pat_completeness auto
termination
  by (relation "measure (\<lambda>(alpha, rasters, n, i, rgbaBuffer). n - i)") auto

text \<open>
  The interleaved buffer before it goes to the encoder: \<open>Buffer.alloc(width * height * 4)\<close>
  is filled with zeros, then the loop runs.
\<close>

definition rgbaBuffer_of :: "byte \<Rightarrow> number list list \<Rightarrow> nat \<Rightarrow> nat \<Rightarrow> exn + byte list" where
  "rgbaBuffer_of alpha rasters width height =
     rgba_loop alpha rasters (width * height) 0 (replicate (width * height * 4) 0)"

text \<open>What the loop has stored for pixel \<open>j\<close> once the buffer is \<open>out\<close>.\<close>

definition pixel_stored :: "byte \<Rightarrow> number list list \<Rightarrow> byte list \<Rightarrow> nat \<Rightarrow> bool" where
  "pixel_stored alpha rasters out j =
     (out ! (j * 4) = toUint8 (band_sample (rasters ! 0) j) \<and>
      out ! (j * 4 + 1) = toUint8 (band_sample (rasters ! 1) j) \<and>
      out ! (j * 4 + 2) = toUint8 (band_sample (rasters ! 2) j) \<and>
      out ! (j * 4 + 3) = alpha)"

subsection \<open>Collaborators\<close>

text \<open>
  The code outside the repository that the handler calls. \<open>readRasters\<close> stands for
  all that \<open>fetchTiffData\<close> does with the storage client and the raster library:
  the signed URL, opening the image, reading its metadata for the log, and
  \<open>image.readRasters({ window: bbox })\<close>. \<open>sharp_png\<close> stands for the encoder,
  called with the raw buffer, width, height and channel count. Either may throw.
\<close>

record collaborators =
  readRasters :: "bbox \<Rightarrow> exn + number list list"
  sharp_png :: "byte list \<Rightarrow> nat \<Rightarrow> nat \<Rightarrow> nat \<Rightarrow> exn + byte list"

definition convertRastersToPng ::
  "collaborators \<Rightarrow> number list list \<Rightarrow> nat \<Rightarrow> nat \<Rightarrow> exn + byte list" where
  "convertRastersToPng env rasters width height =
     (case rgbaBuffer_of 0 rasters width height of
        Inl e \<Rightarrow> Inl e
      | Inr rgbaBuffer \<Rightarrow> sharp_png env rgbaBuffer width height 4)"

definition convertRastersToPng_part_000 ::
  "collaborators \<Rightarrow> number list list \<Rightarrow> nat \<Rightarrow> nat \<Rightarrow> exn + byte list" where
  "convertRastersToPng_part_000 env rasters width height =
     (case rgbaBuffer_of 255 rasters width height of
        Inl e \<Rightarrow> Inl e
      | Inr rgbaBuffer \<Rightarrow> sharp_png env rgbaBuffer width height 4)"

subsection \<open>Fetching the tile\<close>

record TiffData =
  buffer :: "byte list"
  contentType :: string

text \<open>The box is handed to \<open>readRasters\<close> as it is: the call of
  \<open>webMercatorToPixel\<close> is commented out in the source.\<close>

definition fetchTiffData :: "collaborators \<Rightarrow> bbox \<Rightarrow> nat \<Rightarrow> exn + TiffData" where
  "fetchTiffData env bbox tileSize' =
     (case readRasters env bbox of
        Inl e \<Rightarrow> Inl e
      | Inr rasters \<Rightarrow>
          (case convertRastersToPng env rasters tileSize' tileSize' of
             Inl e \<Rightarrow> Inl e
           | Inr png \<Rightarrow> Inr \<lparr>buffer = png, contentType = ''image/png''\<rparr>))"

definition fetchTiffData_part_000 :: "collaborators \<Rightarrow> bbox \<Rightarrow> nat \<Rightarrow> exn + TiffData" where
  "fetchTiffData_part_000 env bbox tileSize' =
     (case readRasters env bbox of
        Inl e \<Rightarrow> Inl e
      | Inr rasters \<Rightarrow>
          (case convertRastersToPng_part_000 env rasters tileSize' tileSize' of
             Inl e \<Rightarrow> Inl e
           | Inr png \<Rightarrow> Inr \<lparr>buffer = png, contentType = ''image/png''\<rparr>))"

subsection \<open>\<open>parseInt\<close>\<close>

text \<open>A string is a sequence of 16-bit code units; \<open>utf16\<close> writes an ASCII string
  as one.\<close>

type_synonym jsstring = "16 word list"

definition utf16 :: "string \<Rightarrow> jsstring" where
  "utf16 s = map of_char s"

text \<open>The white space and line terminators that \<open>parseInt\<close> skips.\<close>

definition isWhiteSpace :: "16 word \<Rightarrow> bool" where
  "isWhiteSpace c =
     (c \<in> set [0x0009, 0x000A, 0x000B, 0x000C, 0x000D, 0x0020, 0x00A0, 0x1680,
                0x2028, 0x2029, 0x202F, 0x205F, 0x3000, 0xFEFF]
      \<or> (0x2000 \<le> c \<and> c \<le> 0x200A))"

text \<open>The value of a code unit as a digit of the radix, if it is one.\<close>

definition digit_of :: "nat \<Rightarrow> 16 word \<Rightarrow> nat option" where
  "digit_of radix c =
     (let n = unat c;
          v = (if 48 \<le> n \<and> n \<le> 57 then n - 48
               else if 97 \<le> n \<and> n \<le> 122 then n - 87
               else if 65 \<le> n \<and> n \<le> 90 then n - 55
               else 36)
      in if v < radix then Some v else None)"

definition digits_value :: "nat \<Rightarrow> jsstring \<Rightarrow> nat" where
  "digits_value radix ds =
     foldl (\<lambda>acc c. acc * radix + (case digit_of radix c of Some v \<Rightarrow> v | None \<Rightarrow> 0)) 0 ds"

text \<open>
  \<open>parseInt(s)\<close> with no radix: leading white space is skipped, a sign is read, a
  prefix \<open>0x\<close> or \<open>0X\<close> selects radix 16, and the longest run of digits that
  follows is the value, whatever comes after it, rounded to binary64. With no digit
  the result is \<open>NaN\<close>.
\<close>

definition parseInt_string :: "jsstring \<Rightarrow> number" where
  "parseInt_string s =
     (let s1 = dropWhile isWhiteSpace s;
          negative = (take 1 s1 = utf16 ''-'');
          s2 = (if take 1 s1 = utf16 ''-'' \<or> take 1 s1 = utf16 ''+'' then drop 1 s1 else s1);
          hex = (take 2 s2 = utf16 ''0x'' \<or> take 2 s2 = utf16 ''0X'');
          radix = (if hex then 16 else 10);
          s3 = (if hex then drop 2 s2 else s2);
          ds = takeWhile (\<lambda>c. digit_of radix c \<noteq> None) s3
      in if ds = [] then NaN
         else if digits_value radix ds = 0 then zero_of negative
         else fl (if negative then - real (digits_value radix ds)
                  else real (digits_value radix ds)))"

text \<open>A path parameter that is not there is \<open>undefined\<close>, which \<open>parseInt\<close> reads
  as the string \<open>undefined\<close>.\<close>

definition parseInt :: "jsstring option \<Rightarrow> number" where
  "parseInt v =
     (case v of Some s \<Rightarrow> parseInt_string s | None \<Rightarrow> parseInt_string (utf16 ''undefined''))"

subsection \<open>The handler\<close>

text \<open>Of the event, the handler reads \<open>pathParameters\<close> only, which may be \<open>null\<close>.\<close>

record APIGatewayProxyEvent =
  pathParameters :: "(string \<rightharpoonup> jsstring) option"

text \<open>The body is kept as what is encoded, not as the encoded text:
  \<open>buffer.toString('base64')\<close> or the JSON text of the error message.\<close>

datatype body = Base64 "byte list" | ErrorJson exn

record APIGatewayProxyResult =
  statusCode :: nat
  headers :: "(string \<times> string) list"
  body :: body
  isBase64Encoded :: "bool option"

definition corsHeaders :: "(string \<times> string) list" where
  "corsHeaders =
     [(''Access-Control-Allow-Origin'', ''*''),
      (''Access-Control-Allow-Headers'',
       ''Content-Type,X-Amz-Date,Authorization,X-Api-Key,X-Amz-Security-Token,X-Amz-User-Agent,Access-Control-Allow-Origin''),
      (''Access-Control-Allow-Methods'', ''OPTIONS,GET'')]"

definition okResponse :: "TiffData \<Rightarrow> APIGatewayProxyResult" where
  "okResponse d =
     \<lparr>statusCode = 200,
      headers = (''Content-Type'', contentType d) # corsHeaders,
      body = Base64 (buffer d),
      isBase64Encoded = Some True\<rparr>"

definition errorResponse :: "exn \<Rightarrow> APIGatewayProxyResult" where
  "errorResponse error =
     \<lparr>statusCode = 500,
      headers = corsHeaders,
      body = ErrorJson error,
      isBase64Encoded = None\<rparr>"

text \<open>\<open>try { ... } catch (error) { ... }\<close>: the handler runs only when the block
  throws, and what the handler throws is thrown.\<close>

definition try_catch :: "exn + 'a \<Rightarrow> (exn \<Rightarrow> exn + 'a) \<Rightarrow> exn + 'a" where
  "try_catch block handler = (case block of Inr v \<Rightarrow> Inr v | Inl error \<Rightarrow> handler error)"

text \<open>The \<open>try\<close> block: destructuring \<open>null\<close> path parameters throws.\<close>

definition tile_try :: "collaborators \<Rightarrow> APIGatewayProxyEvent \<Rightarrow> exn + APIGatewayProxyResult" where
  "tile_try env event =
     (case pathParameters event of
        None \<Rightarrow> Inl TypeError
      | Some p \<Rightarrow>
          (let webMercatorBbox =
                 tileToWebMercator (parseInt (p ''x'')) (parseInt (p ''y'')) (parseInt (p ''z''))
           in case fetchTiffData env webMercatorBbox tileSize of
                Inl e \<Rightarrow> Inl e
              | Inr d \<Rightarrow> Inr (okResponse d)))"

text \<open>The handler: what its promise settles to, a response (\<open>Inr\<close>) or a rejection
  (\<open>Inl\<close>).\<close>

definition tile :: "collaborators \<Rightarrow> APIGatewayProxyEvent \<Rightarrow> exn + APIGatewayProxyResult" where
  "tile env event = try_catch (tile_try env event) (\<lambda>error. Inr (errorResponse error))"

definition tile_try_part_000 ::
  "collaborators \<Rightarrow> APIGatewayProxyEvent \<Rightarrow> exn + APIGatewayProxyResult" where
  "tile_try_part_000 env event =
     (case pathParameters event of
        None \<Rightarrow> Inl TypeError
      | Some p \<Rightarrow>
          (let bbox = bbox_part_000 (parseInt (p ''x'')) (parseInt (p ''y'')) (parseInt (p ''z''))
           in case fetchTiffData_part_000 env bbox 256 of
                Inl e \<Rightarrow> Inl e
              | Inr d \<Rightarrow> Inr (okResponse d)))"

definition tile_part_000 ::
  "collaborators \<Rightarrow> APIGatewayProxyEvent \<Rightarrow> exn + APIGatewayProxyResult" where
  "tile_part_000 env event =
     try_catch (tile_try_part_000 env event) (\<lambda>error. Inr (errorResponse error))"

subsection \<open>Exact values\<close>

text \<open>The value of \<open>webMercatorExtent\<close>: the binary64 number nearest to
  \<open>20037508.3427892\<close> is \<open>5378777689100423 / 2 ^ 28\<close>.\<close>

definition extent :: real where
  "extent = 5378777689100423 / 268435456"

text \<open>
  The edges of the tiles as \<open>tileToWebMercator\<close> computes them: \<open>x_edge z n\<close> is
  the \<open>minX\<close> of column \<open>n\<close> at zoom \<open>z\<close>, and \<open>y_edge z n\<close> the \<open>maxY\<close>
  of row \<open>n\<close>.
\<close>

definition x_edge :: "nat \<Rightarrow> nat \<Rightarrow> number" where
  "x_edge z n =
     nsub (nmul (nmul (Num (real n)) (Num (real tileSize))) (getResolution (Num (real z))))
          webMercatorExtent"

definition y_edge :: "nat \<Rightarrow> nat \<Rightarrow> number" where
  "y_edge z n =
     nsub webMercatorExtent
          (nmul (nmul (Num (real n)) (Num (real tileSize))) (getResolution (Num (real z))))"

subsection \<open>Example inputs\<close>

text \<open>
  A raster of 5 by 3 pixels of 10 units each, covering \<open>0..50\<close> by \<open>0..30\<close>, as
  the raster library presents it: \<open>getResolution()\<close> returns \<open>[10, -10, 0]\<close>.
\<close>

definition geotiff_example :: geoimage where
  "geotiff_example =
     \<lparr>image_width = 5, image_height = 3, image_origin = (Num 0, Num 30),
      image_resolution = Some [Num 10, Num (- 10), Num 0]\<rparr>"


text \<open>A request for \<open>/abc/1/2\<close>, whose zoom does not parse, and a request for
  \<open>/3/3/png\<close>, whose row does not.\<close>

definition malformed_event :: APIGatewayProxyEvent where
  "malformed_event =
     \<lparr>pathParameters =
        Some [''z'' \<mapsto> utf16 ''abc'', ''x'' \<mapsto> utf16 ''1'', ''y'' \<mapsto> utf16 ''2'']\<rparr>"

definition unparsed_row_event :: APIGatewayProxyEvent where
  "unparsed_row_event =
     \<lparr>pathParameters =
        Some [''z'' \<mapsto> utf16 ''3'', ''x'' \<mapsto> utf16 ''3'', ''y'' \<mapsto> utf16 ''png'']\<rparr>"

text \<open>
  Collaborators whose raster read throws; collaborators that accept any window,
  returning three empty bands, as the raster library does for a window of \<open>NaN\<close>,
  and an empty image; and collaborators whose raster has two bands.
\<close>

definition failing_collaborators :: collaborators where
  "failing_collaborators =
     \<lparr>readRasters = (\<lambda>bbox. Inl (Thrown ''read failed'')),
      sharp_png = (\<lambda>rgbaBuffer width height channels. Inr rgbaBuffer)\<rparr>"

definition accepting_collaborators :: collaborators where
  "accepting_collaborators =
     \<lparr>readRasters = (\<lambda>bbox. Inr [[], [], []]),
      sharp_png = (\<lambda>rgbaBuffer width height channels. Inr [])\<rparr>"

definition two_band_collaborators :: collaborators where
  "two_band_collaborators =
     \<lparr>readRasters = (\<lambda>bbox. Inr [[Num 1], [Num 2]]),
      sharp_png = (\<lambda>rgbaBuffer width height channels. Inr [])\<rparr>"

section \<open>Rounding to binary64\<close>

text \<open>
  The facts about \<open>fl\<close> that the properties below rest on: a number that binary64
  has is not changed (\<open>fl_exact\<close>), the result is where the nearest multiple of the
  last place is (\<open>fl_near\<close>, \<open>fl_tie\<close>), a result of magnitude below \<open>2 powi k\<close>
  is off by at most \<open>2 powi (k - 54)\<close> (\<open>fl_error\<close>), and a magnitude of
  \<open>2 ^ 1024\<close> or more is an infinity (\<open>fl_overflow\<close>).
\<close>

lemma two_powi_pos: "0 < (2 :: real) powi k"
  by (simp add: zero_less_power_int)

lemma two_powi_add: "(2 :: real) powi (j + k) = 2 powi j * 2 powi k"
  by (simp add: power_int_add)

lemma two_powi_diff: "(2 :: real) powi (j - k) = 2 powi j / 2 powi k"
  by (simp add: power_int_diff)

lemma two_powi_le: "j \<le> k \<Longrightarrow> (2 :: real) powi j \<le> 2 powi k"
  by (rule power_int_increasing) simp_all

lemma two_powi_less: "j < k \<Longrightarrow> (2 :: real) powi j < 2 powi k"
  by (rule power_int_strict_increasing) simp_all

lemma two_powi_less_cancel: "(2 :: real) powi j < 2 powi k \<Longrightarrow> j < k"
proof (rule ccontr)
  assume less: "(2 :: real) powi j < 2 powi k" and "\<not> j < k"
  then have "k \<le> j" by simp
  then have "(2 :: real) powi k \<le> 2 powi j" by (rule two_powi_le)
  with less show False by simp
qed

lemma ilog2_bounds:
  assumes "0 < a"
  shows "2 powi ilog2 a \<le> a" and "a < 2 powi (ilog2 a + 1)"
proof -
  have "2 powi ilog2 a \<le> a \<and> a < 2 powi (ilog2 a + 1)"
  proof (cases "1 \<le> a")
    case True
    define n where "n = \<lfloor>a\<rfloor>"
    have n: "0 < n" "of_int n \<le> a" "a < of_int n + 1"
      using True by (simp_all add: n_def)
    have len: "1 \<le> bitlen n"
      using n(1) by (simp add: bitlen_alt_def)
    have b: "2 ^ nat (bitlen n - 1) \<le> n" "n < 2 ^ nat (bitlen n)"
      using bitlen_bounds [OF n(1)] by simp_all
    have eq: "ilog2 a = bitlen n - 1"
      using True by (simp add: ilog2_def n_def)
    have lo: "(2 :: real) powi (bitlen n - 1) \<le> of_int n"
    proof -
      have "(2 :: real) powi (bitlen n - 1) = 2 ^ nat (bitlen n - 1)"
        using len by (simp add: power_int_nonneg_exp)
      also have "\<dots> = of_int (2 ^ nat (bitlen n - 1))" by simp
      also have "\<dots> \<le> of_int n" using b(1) by (simp only: of_int_le_iff)
      finally show ?thesis .
    qed
    have hi: "of_int n + 1 \<le> (2 :: real) powi (bitlen n)"
    proof -
      have "n + 1 \<le> 2 ^ nat (bitlen n)" using b(2) by simp
      then have "real_of_int (n + 1) \<le> of_int (2 ^ nat (bitlen n))"
        by (simp only: of_int_le_iff)
      also have "\<dots> = 2 powi (bitlen n)"
        using len by (simp add: power_int_nonneg_exp)
      finally show ?thesis by simp
    qed
    show ?thesis
      using lo hi n by (simp add: eq)
  next
    case False
    define y where "y = 1 / a"
    define m where "m = \<lceil>y\<rceil> - 1"
    have y: "1 < y" using False assms by (simp add: y_def)
    have m: "0 < m" "of_int m < y" "y \<le> of_int m + 1"
      using y by (simp_all add: m_def) linarith+
    have len: "1 \<le> bitlen m"
      using m(1) by (simp add: bitlen_alt_def)
    have b: "2 ^ nat (bitlen m - 1) \<le> m" "m < 2 ^ nat (bitlen m)"
      using bitlen_bounds [OF m(1)] by simp_all
    have eq: "ilog2 a = - bitlen m"
      using False by (simp add: ilog2_def m_def y_def)
    have up: "y \<le> 2 powi (bitlen m)"
    proof -
      have "m + 1 \<le> 2 ^ nat (bitlen m)" using b(2) by simp
      then have "real_of_int (m + 1) \<le> of_int (2 ^ nat (bitlen m))"
        by (simp only: of_int_le_iff)
      also have "\<dots> = 2 powi (bitlen m)"
        using len by (simp add: power_int_nonneg_exp)
      finally show ?thesis using m(3) by simp
    qed
    have down: "2 powi (bitlen m - 1) < y"
    proof -
      have "(2 :: real) powi (bitlen m - 1) = of_int (2 ^ nat (bitlen m - 1))"
        using len by (simp add: power_int_nonneg_exp)
      also have "\<dots> \<le> of_int m" using b(1) by (simp only: of_int_le_iff)
      finally show ?thesis using m(2) by simp
    qed
    have a: "a = 1 / y" using assms by (simp add: y_def)
    have "2 powi (- bitlen m) \<le> a"
    proof -
      have "1 / 2 powi (bitlen m) \<le> 1 / y"
        using up y by (intro divide_left_mono) (simp_all add: two_powi_pos)
      then show ?thesis by (simp add: a power_int_minus_divide)
    qed
    moreover have "a < 2 powi (- bitlen m + 1)"
    proof -
      have "1 / y < 1 / 2 powi (bitlen m - 1)"
        using down y by (intro divide_strict_left_mono) (simp_all add: two_powi_pos)
      moreover have "(2 :: real) powi (- bitlen m + 1) = 1 / 2 powi (bitlen m - 1)"
        using power_int_minus_divide [of "2 :: real" "bitlen m - 1"] by simp
      ultimately show ?thesis by (simp add: a)
    qed
    ultimately show ?thesis by (simp add: eq)
  qed
  then show "2 powi ilog2 a \<le> a" and "a < 2 powi (ilog2 a + 1)" by simp_all
qed

lemma ilog2_unique:
  assumes "2 powi L \<le> a" "a < 2 powi (L + 1)"
  shows "ilog2 a = L"
proof -
  have pos: "0 < a" using assms(1) two_powi_pos [of L] by linarith
  have "2 powi ilog2 a < (2 :: real) powi (L + 1)"
    using ilog2_bounds(1) [OF pos] assms(2) by linarith
  then have "ilog2 a < L + 1" by (rule two_powi_less_cancel)
  moreover have "(2 :: real) powi L < 2 powi (ilog2 a + 1)"
    using ilog2_bounds(2) [OF pos] assms(1) by linarith
  then have "L < ilog2 a + 1" by (rule two_powi_less_cancel)
  ultimately show ?thesis by simp
qed

lemma ilog2_less: "0 < a \<Longrightarrow> a < 2 powi k \<Longrightarrow> ilog2 a < k"
proof -
  assume "0 < a" "a < 2 powi k"
  then have "(2 :: real) powi ilog2 a < 2 powi k"
    using ilog2_bounds(1) [of a] by linarith
  then show ?thesis by (rule two_powi_less_cancel)
qed

lemma round_half_even_error: "\<bar>of_int (round_half_even q) - q\<bar> \<le> 1 / 2"
  unfolding round_half_even_def by (auto simp: abs_le_iff)

lemma round_half_even_of_int: "round_half_even (of_int n) = n"
  by (simp add: round_half_even_def)

lemma round_half_even_near:
  assumes "\<bar>q - of_int n\<bar> < 1 / 2"
  shows "round_half_even q = n"
proof -
  have "\<bar>of_int (round_half_even q) - q\<bar> \<le> 1 / 2" by (rule round_half_even_error)
  then have "\<bar>real_of_int (round_half_even q) - of_int n\<bar> < 1" using assms by linarith
  then have "\<bar>real_of_int (round_half_even q - n)\<bar> < 1" by simp
  then have "\<bar>round_half_even q - n\<bar> < 1" by linarith
  then show ?thesis by simp
qed

lemma round_half_even_tie:
  assumes "q = of_int n + 1 / 2"
  shows "round_half_even q = (if even n then n else n + 1)"
proof -
  have "\<lfloor>q\<rfloor> = n" using assms by linarith
  then show ?thesis using assms by (simp add: round_half_even_def)
qed

lemma round_half_even_le: "q \<le> of_int n \<Longrightarrow> round_half_even q \<le> n"
proof -
  assume le: "q \<le> of_int n"
  show ?thesis
  proof (cases "q = of_int n")
    case True
    then show ?thesis by (simp add: round_half_even_of_int)
  next
    case False
    then have "q < of_int n" using le by simp
    then have "\<lfloor>q\<rfloor> < n" by linarith
    then have "\<lfloor>q\<rfloor> + 1 \<le> n" by simp
    moreover have "round_half_even q \<le> \<lfloor>q\<rfloor> + 1"
      by (simp add: round_half_even_def)
    ultimately show ?thesis by linarith
  qed
qed

lemma round_half_even_ge: "of_int n \<le> q \<Longrightarrow> n \<le> round_half_even q"
proof -
  assume "of_int n \<le> q"
  then have "n \<le> \<lfloor>q\<rfloor>" by linarith
  moreover have "\<lfloor>q\<rfloor> \<le> round_half_even q"
    by (simp add: round_half_even_def)
  ultimately show ?thesis by linarith
qed


lemma quantum_ge: "- 1074 \<le> quantum a"
  by (simp add: quantum_def)

lemma quantum_le:
  assumes "0 < a" "a < 2 powi k" "- 1074 \<le> j" "k - 53 \<le> j"
  shows "quantum a \<le> j"
proof -
  have "ilog2 a < k" using assms(1,2) by (rule ilog2_less)
  then show ?thesis using assms(3,4) by (simp add: quantum_def)
qed

lemma quantum_le_ilog2: "- 1074 \<le> ilog2 a \<Longrightarrow> quantum a \<le> ilog2 a"
  by (simp add: quantum_def)


text \<open>A multiple of \<open>2 powi e\<close>, as a quotient by a smaller power of two.\<close>

lemma grid_quotient:
  assumes "e \<le> k"
  shows "of_int m * 2 powi k / 2 powi e = (of_int (m * 2 ^ nat (k - e)) :: real)"
proof -
  have "(2 :: real) powi k / 2 powi e = 2 powi (k - e)"
    by (simp add: two_powi_diff)
  also have "\<dots> = 2 ^ nat (k - e)"
    using assms by (simp add: power_int_nonneg_exp)
  finally have "(2 :: real) powi k / 2 powi e = 2 ^ nat (k - e)" .
  then have "of_int m * (2 powi k / 2 powi e) = (of_int m * 2 ^ nat (k - e) :: real)"
    by simp
  then show ?thesis by simp
qed

lemma round_magnitude_grid:
  assumes "quantum a \<le> k" "a = of_int m * 2 powi k"
  shows "round_magnitude a = a"
proof -
  let ?e = "quantum a"
  have "a / 2 powi ?e = of_int m * 2 powi k / 2 powi ?e"
    using assms(2) by simp
  also have "\<dots> = of_int (m * 2 ^ nat (k - ?e))"
    using assms(1) by (rule grid_quotient)
  finally have q: "a / 2 powi ?e = of_int (m * 2 ^ nat (k - ?e))" .
  have "round_magnitude a = of_int (m * 2 ^ nat (k - ?e)) * 2 powi ?e"
    unfolding round_magnitude_def q round_half_even_of_int ..
  also have "\<dots> = a / 2 powi ?e * 2 powi ?e"
    by (simp only: q)
  also have "\<dots> = a"
    using two_powi_pos [of ?e] by simp
  finally show ?thesis .
qed

lemma round_magnitude_exact:
  assumes "a = of_int m * 2 powi k" "0 < m" "m < 2 ^ 53" "- 1074 \<le> k"
  shows "round_magnitude a = a"
proof -
  have pos: "0 < a"
    using assms(1,2) by (simp add: two_powi_pos)
  have "real_of_int m < of_int (2 ^ 53)"
    using assms(3) by (simp only: of_int_less_iff)
  then have "real_of_int m < 2 powi 53" by simp
  then have "a < 2 powi 53 * 2 powi k"
    unfolding assms(1) using two_powi_pos [of k] by (simp only: mult_strict_right_mono)
  then have "a < 2 powi (53 + k)" by (simp add: two_powi_add)
  then have "quantum a \<le> k"
    using pos assms(4) by (intro quantum_le [where k = "53 + k"]) simp_all
  then show ?thesis using assms(1) by (rule round_magnitude_grid)
qed

lemma round_magnitude_error:
  assumes "0 < a" "a < 2 powi k" "- 1021 \<le> k"
  shows "\<bar>round_magnitude a - a\<bar> \<le> 2 powi (k - 54)" and "round_magnitude a \<le> 2 powi k"
proof -
  let ?e = "quantum a"
  let ?q = "a / 2 powi ?e"
  have e: "?e \<le> k - 53"
    using assms by (intro quantum_le [where k = k]) simp_all
  have a: "a = ?q * 2 powi ?e"
    using two_powi_pos [of ?e] by simp
  have "\<bar>of_int (round_half_even ?q) - ?q\<bar> * 2 powi ?e \<le> 1 / 2 * 2 powi ?e"
    using round_half_even_error [of ?q] two_powi_pos [of ?e]
    by (intro mult_right_mono) simp_all
  moreover have "\<bar>of_int (round_half_even ?q) - ?q\<bar> * 2 powi ?e = \<bar>round_magnitude a - a\<bar>"
  proof -
    have "round_magnitude a - a = (of_int (round_half_even ?q) - ?q) * 2 powi ?e"
      using a by (simp add: round_magnitude_def algebra_simps)
    then show ?thesis
      using two_powi_pos [of ?e] by (simp add: abs_mult)
  qed
  moreover have "1 / 2 * (2 :: real) powi ?e = 2 powi (?e - 1)"
    by (simp add: two_powi_diff)
  moreover have "(2 :: real) powi (?e - 1) \<le> 2 powi (k - 54)"
    using e by (intro two_powi_le) simp
  ultimately show "\<bar>round_magnitude a - a\<bar> \<le> 2 powi (k - 54)"
    by linarith
  have "?e \<le> k" using e by simp
  then have "of_int 1 * 2 powi k / 2 powi ?e = (of_int (1 * 2 ^ nat (k - ?e)) :: real)"
    by (rule grid_quotient)
  then have top: "2 powi k / 2 powi ?e = (of_int (2 ^ nat (k - ?e)) :: real)"
    by simp
  have "?q \<le> 2 powi k / 2 powi ?e"
    using assms(2) two_powi_pos [of ?e] by (simp add: divide_right_mono)
  then have "?q \<le> of_int (2 ^ nat (k - ?e))"
    by (simp only: top)
  then have "round_half_even ?q \<le> 2 ^ nat (k - ?e)"
    by (rule round_half_even_le)
  then have "real_of_int (round_half_even ?q) \<le> of_int (2 ^ nat (k - ?e))"
    by (simp only: of_int_le_iff)
  then have "real_of_int (round_half_even ?q) \<le> 2 powi k / 2 powi ?e"
    by (simp only: top)
  then have "real_of_int (round_half_even ?q) * 2 powi ?e \<le> 2 powi k / 2 powi ?e * 2 powi ?e"
    using two_powi_pos [of ?e] by (intro mult_right_mono) simp_all
  then show "round_magnitude a \<le> 2 powi k"
    using two_powi_pos [of ?e] by (simp add: round_magnitude_def)
qed

lemma round_magnitude_ge:
  assumes "2 powi j \<le> a" "- 1074 \<le> j"
  shows "2 powi j \<le> round_magnitude a"
proof -
  let ?e = "quantum a"
  let ?q = "a / 2 powi ?e"
  have pos: "0 < a" using assms(1) two_powi_pos [of j] by linarith
  have "(2 :: real) powi j < 2 powi (ilog2 a + 1)"
    using ilog2_bounds(2) [OF pos] assms(1) by linarith
  then have "j < ilog2 a + 1" by (rule two_powi_less_cancel)
  then have j: "j \<le> ilog2 a" by simp
  then have e: "?e \<le> ilog2 a"
    using assms(2) by (intro quantum_le_ilog2) simp
  have "of_int 1 * 2 powi ilog2 a / 2 powi ?e = (of_int (1 * 2 ^ nat (ilog2 a - ?e)) :: real)"
    using e by (rule grid_quotient)
  then have low: "2 powi ilog2 a / 2 powi ?e = (of_int (2 ^ nat (ilog2 a - ?e)) :: real)"
    by simp
  have "2 powi ilog2 a / 2 powi ?e \<le> ?q"
    using ilog2_bounds(1) [OF pos] two_powi_pos [of ?e] by (simp add: divide_right_mono)
  then have "of_int (2 ^ nat (ilog2 a - ?e)) \<le> ?q"
    by (simp only: low)
  then have "2 ^ nat (ilog2 a - ?e) \<le> round_half_even ?q"
    by (rule round_half_even_ge)
  then have "real_of_int (2 ^ nat (ilog2 a - ?e)) \<le> of_int (round_half_even ?q)"
    by (simp only: of_int_le_iff)
  then have "2 powi ilog2 a / 2 powi ?e \<le> real_of_int (round_half_even ?q)"
    by (simp only: low)
  then have "2 powi ilog2 a / 2 powi ?e * 2 powi ?e \<le> real_of_int (round_half_even ?q) * 2 powi ?e"
    using two_powi_pos [of ?e] by (intro mult_right_mono) simp_all
  then have "2 powi ilog2 a \<le> round_magnitude a"
    using two_powi_pos [of ?e] by (simp add: round_magnitude_def)
  moreover have "(2 :: real) powi j \<le> 2 powi ilog2 a"
    using j by (rule two_powi_le)
  ultimately show ?thesis by linarith
qed

lemma quantum_eq:
  assumes "2 powi L \<le> a" "a < 2 powi (L + 1)"
  shows "quantum a = max (L - 52) (- 1074)"
  using ilog2_unique [OF assms] by (simp add: quantum_def)

lemma round_magnitude_near:
  assumes "2 powi L \<le> a" "a < 2 powi (L + 1)" "e = max (L - 52) (- 1074)"
    and "\<bar>a / 2 powi e - of_int n\<bar> < 1 / 2"
  shows "round_magnitude a = of_int n * 2 powi e"
proof -
  have "quantum a = e" using quantum_eq [OF assms(1,2)] assms(3) by simp
  then show ?thesis
    using round_half_even_near [OF assms(4)] by (simp add: round_magnitude_def)
qed

lemma round_magnitude_tie:
  assumes "2 powi L \<le> a" "a < 2 powi (L + 1)" "e = max (L - 52) (- 1074)"
    and "a / 2 powi e = of_int n + 1 / 2"
  shows "round_magnitude a = of_int (if even n then n else n + 1) * 2 powi e"
proof -
  have "quantum a = e" using quantum_eq [OF assms(1,2)] assms(3) by simp
  then show ?thesis
    using round_half_even_tie [OF assms(4)] by (simp add: round_magnitude_def)
qed


lemma fl_exact:
  assumes "x = of_int m * 2 powi k" "m \<noteq> 0" "\<bar>m\<bar> < 2 ^ 53" "- 1074 \<le> k" "\<bar>x\<bar> < 2 ^ 1024"
  shows "fl x = Num x"
proof -
  have abs: "\<bar>x\<bar> = of_int \<bar>m\<bar> * 2 powi k"
    using two_powi_pos [of k] by (simp add: assms(1) abs_mult)
  have rm: "round_magnitude \<bar>x\<bar> = \<bar>x\<bar>"
    using abs assms(2,3,4) by (intro round_magnitude_exact [where m = "\<bar>m\<bar>" and k = k]) simp_all
  have nz: "x \<noteq> 0"
    using assms(1,2) two_powi_pos [of k] by simp
  have "fl x = Num (if 0 < x then \<bar>x\<bar> else - \<bar>x\<bar>)"
    unfolding fl_def rm using nz assms(5) by simp
  then show ?thesis by (simp add: abs_if)
qed

lemma fl_overflow: "2 ^ 1024 \<le> x \<Longrightarrow> fl x = PosInf"
proof -
  assume x: "2 ^ 1024 \<le> x"
  then have "2 powi 1024 \<le> \<bar>x\<bar>" by simp
  then have "2 powi 1024 \<le> round_magnitude \<bar>x\<bar>"
    by (rule round_magnitude_ge) simp
  moreover have "0 < x" using x by (smt (verit) zero_less_power)
  ultimately show ?thesis by (simp add: fl_def)
qed


lemma fl_round:
  assumes "x \<noteq> 0" "round_magnitude \<bar>x\<bar> = r" "0 < r" "r < 2 ^ 1024"
  shows "fl x = Num (if 0 < x then r else - r)"
  unfolding fl_def assms(2) using assms(1,3,4) by simp

lemma fl_near:
  assumes "2 powi L \<le> \<bar>x\<bar>" "\<bar>x\<bar> < 2 powi (L + 1)" "e = max (L - 52) (- 1074)"
    and "\<bar>\<bar>x\<bar> / 2 powi e - of_int n\<bar> < 1 / 2" "0 < n" "of_int n * 2 powi e < (2 :: real) ^ 1024"
  shows "fl x = Num (if 0 < x then of_int n * 2 powi e else - (of_int n * 2 powi e))"
proof -
  have "x \<noteq> 0" using assms(1) two_powi_pos [of L] by linarith
  moreover have "round_magnitude \<bar>x\<bar> = of_int n * 2 powi e"
    using assms(1-4) by (rule round_magnitude_near)
  moreover have "0 < real_of_int n * 2 powi e"
    using assms(5) by (simp add: two_powi_pos)
  ultimately show ?thesis using assms(6) by (rule fl_round)
qed

lemma fl_tie:
  assumes "2 powi L \<le> \<bar>x\<bar>" "\<bar>x\<bar> < 2 powi (L + 1)" "e = max (L - 52) (- 1074)"
    and "\<bar>x\<bar> / 2 powi e = of_int n + 1 / 2" "0 < n" "even n"
    and "of_int n * 2 powi e < (2 :: real) ^ 1024"
  shows "fl x = Num (if 0 < x then of_int n * 2 powi e else - (of_int n * 2 powi e))"
proof -
  have "x \<noteq> 0" using assms(1) two_powi_pos [of L] by linarith
  moreover have "round_magnitude \<bar>x\<bar> = of_int n * 2 powi e"
    using round_magnitude_tie [OF assms(1-4)] assms(6) by simp
  moreover have "0 < real_of_int n * 2 powi e"
    using assms(5) by (simp add: two_powi_pos)
  ultimately show ?thesis using assms(7) by (rule fl_round)
qed

lemma fl_error:
  assumes "\<bar>x\<bar> < 2 powi k" "- 1021 \<le> k" "k \<le> 1023"
  shows "finite_number (fl x)" and "\<bar>value_of (fl x) - x\<bar> \<le> 2 powi (k - 54)"
proof -
  have "finite_number (fl x) \<and> \<bar>value_of (fl x) - x\<bar> \<le> 2 powi (k - 54)"
  proof (cases "x = 0")
    case True
    then show ?thesis
      by (simp add: fl_def finite_number_def value_of_def two_powi_pos less_imp_le)
  next
    case False
    let ?r = "round_magnitude \<bar>x\<bar>"
    have pos: "0 < \<bar>x\<bar>" using False by simp
    have err: "\<bar>?r - \<bar>x\<bar>\<bar> \<le> 2 powi (k - 54)"
      using pos assms(1,2) by (rule round_magnitude_error(1))
    have "?r \<le> 2 powi k"
      using pos assms(1,2) by (rule round_magnitude_error(2))
    also have "(2 :: real) powi k \<le> 2 powi 1023"
      using assms(3) by (rule two_powi_le)
    finally have small: "\<not> 2 ^ 1024 \<le> ?r" by simp
    show ?thesis
    proof (cases "?r = 0")
      case True
      have "fl x = (if 0 < x then Num 0 else NegZero)"
        unfolding fl_def True using False by simp
      then have "finite_number (fl x)" "value_of (fl x) = 0"
        by (simp_all add: finite_number_def value_of_def)
      then show ?thesis using err True by simp
    next
      case nz: False
      have "fl x = Num (if 0 < x then ?r else - ?r)"
        unfolding fl_def using False small nz by simp
      then have "finite_number (fl x)" "value_of (fl x) = (if 0 < x then ?r else - ?r)"
        by (simp_all add: finite_number_def value_of_def)
      then show ?thesis using err by (auto simp: abs_if split: if_splits)
    qed
  qed
  then show "finite_number (fl x)" and "\<bar>value_of (fl x) - x\<bar> \<le> 2 powi (k - 54)"
    by simp_all
qed


lemma fl_pos:
  assumes "2 powi j \<le> x" "- 1074 \<le> j" "x < 2 powi k" "- 1021 \<le> k" "k \<le> 1023"
  shows "\<exists>r. fl x = Num r \<and> 0 < r"
proof -
  let ?r = "round_magnitude \<bar>x\<bar>"
  have x: "0 < x" using assms(1) two_powi_pos [of j] by linarith
  then have abs: "\<bar>x\<bar> = x" by simp
  have "2 powi j \<le> ?r"
    unfolding abs using assms(1,2) by (rule round_magnitude_ge)
  then have pos: "0 < ?r" using two_powi_pos [of j] by linarith
  have "?r \<le> 2 powi k"
    unfolding abs using x assms(3) by (intro round_magnitude_error(2)) (use assms in simp_all)
  also have "(2 :: real) powi k \<le> 2 powi 1023"
    using assms(5) by (rule two_powi_le)
  finally have "?r < 2 ^ 1024" by simp
  then have "fl x = Num (if 0 < x then ?r else - ?r)"
    using x pos by (intro fl_round) simp_all
  then show ?thesis using x pos by simp
qed

section \<open>Properties of the resolution\<close>

text \<open>
  The literal of \<open>webMercatorExtent\<close> rounds to \<open>extent\<close>, and as long as
  \<open>tileSize * Math.pow(2, z)\<close> is finite, up to zoom 1015, the divisions of
  \<open>getResolution\<close> are by powers of two and exact.
\<close>

lemma two_powi_neg: "(2 :: real) powi (- int n) = 1 / 2 ^ n"
  by (simp add: power_int_minus_divide)

lemma two_powi_neg_add: "(2 :: real) powi (- int j - int n) = 1 / (2 ^ j * 2 ^ n)"
proof -
  have "(2 :: real) powi (- int j - int n) = 2 powi (- int (j + n))" by simp
  also have "\<dots> = 1 / 2 ^ (j + n)" by (rule two_powi_neg)
  finally show ?thesis by (simp add: power_add)
qed

lemma webMercatorExtent_value: "webMercatorExtent = Num extent"
  unfolding webMercatorExtent_def extent_def
  using fl_near [of 24 "20037508.3427892" "- 28" 5378777689100423] by simp

lemma extent_bounds: "2 ^ 24 < extent" "extent < 2 ^ 25"
  by (simp_all add: extent_def)

lemma nmul_Num:
  "nmul (Num a) (Num b) = (if a * b = 0 then zero_of ((a < 0) \<noteq> (b < 0)) else fl (a * b))"
  by (simp add: nmul_def is_inf_def is_zero_def value_of_def signbit_def)

lemma nadd_Num:
  "nadd (Num a) (Num b) = (if a + b = 0 then zero_of (a < 0 \<and> b < 0) else fl (a + b))"
  by (simp add: nadd_def is_inf_def value_of_def signbit_def)

lemma nsub_Num: "nsub (Num a) (Num b) = (if a = b then Num 0 else fl (a - b))"
  by (auto simp: nsub_def nneg_def nadd_def is_inf_def value_of_def signbit_def zero_of_def)

lemma ndiv_Num:
  "b \<noteq> 0 \<Longrightarrow> ndiv (Num a) (Num b) = (if a = 0 then zero_of (b < 0) else fl (a / b))"
  by (simp add: ndiv_def is_inf_def is_zero_def value_of_def signbit_def)

lemma fl_nat_power: "n \<le> 1023 \<Longrightarrow> fl (2 ^ n) = Num (2 ^ n)"
proof -
  assume n: "n \<le> 1023"
  have "(2 :: real) ^ n \<le> 2 ^ 1023"
    using n by (intro power_increasing) simp_all
  then have "\<bar>(2 :: real) ^ n\<bar> < 2 ^ 1024" by simp
  then show ?thesis
    by (intro fl_exact [where m = 1 and k = "int n"]) simp_all
qed

lemma Math_pow2_nat: "z \<le> 1023 \<Longrightarrow> Math_pow2 (Num (real z)) = Num (2 ^ z)"
  by (simp add: Math_pow2_def fl_nat_power)

lemma double_extent: "nmul (Num 2) webMercatorExtent = Num (2 * extent)"
proof -
  have "fl (2 * extent) = Num (2 * extent)"
    by (rule fl_exact [where m = 5378777689100423 and k = "- 27"]) (simp_all add: extent_def)
  then show ?thesis
    by (simp add: webMercatorExtent_value nmul_Num extent_def)
qed

lemma tile_times_power:
  assumes "z \<le> 1015"
  shows "nmul (Num (real tileSize)) (Math_pow2 (Num (real z))) = Num (256 * 2 ^ z)"
proof -
  have "fl (2 ^ (z + 8)) = Num (2 ^ (z + 8))"
    using assms by (intro fl_nat_power) simp
  then have "fl (256 * 2 ^ z) = Num (256 * 2 ^ z)"
    by (simp add: power_add mult.commute)
  then show ?thesis
    using assms by (simp add: Math_pow2_nat tileSize_def nmul_Num)
qed

text \<open>The quotients of the doubled extent by a power of two that binary64 has.\<close>

lemma fl_extent_quotient:
  assumes "n \<le> 1047"
  shows "fl (2 * extent / 2 ^ n) = Num (2 * extent / 2 ^ n)"
proof (rule fl_exact [where m = 5378777689100423 and k = "- 27 - int n"])
  show "2 * extent / 2 ^ n = real_of_int 5378777689100423 * 2 powi (- 27 - int n)"
    using two_powi_neg_add [of 27 n] by (simp add: extent_def)
  have "2 * extent / 2 ^ n \<le> 2 * extent / 1"
    by (intro divide_left_mono) (simp_all add: extent_def)
  then show "\<bar>2 * extent / 2 ^ n\<bar> < 2 ^ 1024"
    by (simp add: extent_def)
  show "- 1074 \<le> - 27 - int n" using assms by simp
qed simp_all

lemma getResolution_nat:
  assumes "z \<le> 1015"
  shows "getResolution (Num (real z)) = Num (2 * extent / (256 * 2 ^ z))"
proof -
  have "fl (2 * extent / 2 ^ (z + 8)) = Num (2 * extent / 2 ^ (z + 8))"
    using assms by (intro fl_extent_quotient) simp
  then have "fl (2 * extent / (256 * 2 ^ z)) = Num (2 * extent / (256 * 2 ^ z))"
    by (simp add: power_add mult.commute)
  then show ?thesis
    unfolding getResolution_def double_extent tile_times_power [OF assms]
    by (simp add: ndiv_Num extent_def)
qed

lemma getResolution_large:
  assumes "1016 \<le> z"
  shows "getResolution (Num (real z)) = Num 0"
proof -
  have inf: "nmul (Num (real tileSize)) (Math_pow2 (Num (real z))) = PosInf"
  proof (cases "z \<le> 1023")
    case True
    have "(2 :: real) ^ 1024 \<le> 2 ^ (z + 8)"
      using assms by (intro power_increasing) simp_all
    then have "(2 :: real) ^ 1024 \<le> 256 * 2 ^ z"
      by (simp add: power_add mult.commute)
    then have "fl (256 * 2 ^ z) = PosInf"
      by (rule fl_overflow)
    then show ?thesis
      using True by (simp add: Math_pow2_nat tileSize_def nmul_Num)
  next
    case False
    then have "(1024 :: real) \<le> real z" by simp
    then have "Math_pow2 (Num (real z)) = PosInf"
      by (simp add: Math_pow2_def)
    then show ?thesis
      by (simp add: nmul_def is_inf_def is_zero_def signbit_def inf_of_def tileSize_def)
  qed
  show ?thesis
    unfolding getResolution_def double_extent inf
    by (simp add: ndiv_def is_inf_def signbit_def zero_of_def extent_def)
qed

text \<open>
  C7, amended. For every zoom \<open>z \<ge> 0\<close> other than 1015, the resolution halves exactly
  when the zoom increases by one: \<open>getResolution(z + 1) = getResolution(z) / 2\<close>. Up
  to zoom 1015 the resolution is \<open>2 * extent / (256 * 2 ^ z)\<close>, and from zoom 1016 on,
  where \<open>tileSize * Math.pow(2, z)\<close> is infinite, it is 0.
\<close>

theorem getResolution_halves:
  assumes "z \<noteq> 1015"
  shows "getResolution (Num (real (z + 1))) = ndiv (getResolution (Num (real z))) (Num 2)
         \<and> getResolution (Num (real z))
             = (if z \<le> 1015 then Num (2 * extent / (256 * 2 ^ z)) else Num 0)"
proof (cases "z \<le> 1014")
  case True
  have now: "getResolution (Num (real z)) = Num (2 * extent / (256 * 2 ^ z))"
    using True by (intro getResolution_nat) simp
  have next_zoom: "getResolution (Num (real (z + 1))) = Num (2 * extent / (256 * 2 ^ (z + 1)))"
    using True by (intro getResolution_nat) simp
  have "fl (2 * extent / 2 ^ (z + 9)) = Num (2 * extent / 2 ^ (z + 9))"
    using True by (intro fl_extent_quotient) simp
  then have "fl (2 * extent / (256 * 2 ^ z) / 2) = Num (2 * extent / (256 * 2 ^ (z + 1)))"
    by (simp add: power_add mult.commute)
  then have "ndiv (Num (2 * extent / (256 * 2 ^ z))) (Num 2) = Num (2 * extent / (256 * 2 ^ (z + 1)))"
    by (simp add: ndiv_Num extent_def)
  then show ?thesis
    using now next_zoom True by simp
next
  case False
  then have z: "1016 \<le> z" using assms by simp
  have now: "getResolution (Num (real z)) = Num 0"
    using z by (rule getResolution_large)
  have next_zoom: "getResolution (Num (real (z + 1))) = Num 0"
    using z by (intro getResolution_large) simp
  have "ndiv (Num 0) (Num 2) = Num 0"
    by (simp add: ndiv_Num zero_of_def)
  then show ?thesis
    using now next_zoom z by simp
qed

text \<open>Zoom 3.\<close>

theorem getResolution_halves_witness:
  "(3 :: nat) \<noteq> 1015 \<and>
   getResolution (Num (real (3 + 1))) = ndiv (getResolution (Num (real 3))) (Num 2)"
  using getResolution_halves [of 3] by simp

text \<open>
  C7, as it is stated, fails at zoom 1015: \<open>256 * Math.pow(2, 1016)\<close> is infinite,
  so that \<open>getResolution(1016)\<close> is 0, and half of \<open>getResolution(1015)\<close> is
  not.
\<close>

theorem getResolution_overflow_counterexample:
  "getResolution (Num 1016) = Num 0 \<and>
   ndiv (getResolution (Num 1015)) (Num 2) = Num (2 * extent / (256 * 2 ^ 1015) / 2) \<and>
   2 * extent / (256 * 2 ^ 1015) / 2 \<noteq> 0 \<and>
   getResolution (Num 1016) \<noteq> ndiv (getResolution (Num 1015)) (Num 2)"
proof -
  have "getResolution (Num (real 1016)) = Num 0"
    by (rule getResolution_large) simp
  then have zero: "getResolution (Num 1016) = Num 0" by simp
  have "getResolution (Num (real 1015)) = Num (2 * extent / (256 * 2 ^ 1015))"
    by (rule getResolution_nat) simp
  then have r: "getResolution (Num 1015) = Num (2 * extent / (256 * 2 ^ 1015))" by simp
  have "fl (2 * extent / 2 ^ (1015 + 9)) = Num (2 * extent / 2 ^ (1015 + 9))"
    by (rule fl_extent_quotient) simp
  then have "fl (2 * extent / (256 * 2 ^ 1015) / 2) = Num (2 * extent / (256 * 2 ^ 1015) / 2)"
    by (simp add: power_add)
  then have h: "ndiv (Num (2 * extent / (256 * 2 ^ 1015))) (Num 2)
               = Num (2 * extent / (256 * 2 ^ 1015) / 2)"
    by (simp add: ndiv_Num extent_def)
  have nz: "2 * extent / (256 * 2 ^ 1015) / 2 \<noteq> 0"
    by (simp add: extent_def)
  show ?thesis
    unfolding zero r h using nz by simp
qed

section \<open>Properties of the tile addressing\<close>

text \<open>
  Each edge of a tile comes out of three roundings: of the product of the address and
  the tile size, which is exact, of its product with the resolution, and of the
  difference with the extent. The last two are of numbers below \<open>2 ^ 26\<close>, so that
  each is off by at most \<open>1 / 2 ^ 28\<close>.
\<close>

lemma finite_number_Num: "finite_number (Num a)"
  by (simp add: finite_number_def)

lemma finite_number_zero_of: "finite_number (zero_of s)" "value_of (zero_of s) = 0"
  by (simp_all add: zero_of_def finite_number_def value_of_def)

lemma finite_not_special:
  "finite_number a \<Longrightarrow> a \<noteq> NaN \<and> \<not> is_inf a"
  by (cases a) (simp_all add: finite_number_def is_inf_def)

lemma nneg_finite:
  "finite_number b \<Longrightarrow> finite_number (nneg b) \<and> value_of (nneg b) = - value_of b"
  by (cases b) (simp_all add: finite_number_def nneg_def value_of_def)

lemma nadd_finite:
  assumes "finite_number a" "finite_number b"
  shows "nadd a b =
           (if value_of a + value_of b = 0 then zero_of (signbit a \<and> signbit b)
            else fl (value_of a + value_of b))"
  using finite_not_special [OF assms(1)] finite_not_special [OF assms(2)]
  by (simp add: nadd_def)

lemma nmul_finite:
  assumes "finite_number a" "finite_number b"
  shows "nmul a b =
           (if value_of a * value_of b = 0 then zero_of (signbit a \<noteq> signbit b)
            else fl (value_of a * value_of b))"
  using finite_not_special [OF assms(1)] finite_not_special [OF assms(2)]
  by (simp add: nmul_def)

lemma nadd_error:
  assumes "finite_number a" "finite_number b"
    and "\<bar>value_of a + value_of b\<bar> < 2 powi k" "- 1021 \<le> k" "k \<le> 1023"
  shows "finite_number (nadd a b)"
    and "\<bar>value_of (nadd a b) - (value_of a + value_of b)\<bar> \<le> 2 powi (k - 54)"
  using fl_error [OF assms(3-5)]
  by (simp_all add: nadd_finite [OF assms(1,2)] finite_number_zero_of two_powi_pos less_imp_le)

lemma nsub_error:
  assumes "finite_number a" "finite_number b"
    and "\<bar>value_of a - value_of b\<bar> < 2 powi k" "- 1021 \<le> k" "k \<le> 1023"
  shows "finite_number (nsub a b)"
    and "\<bar>value_of (nsub a b) - (value_of a - value_of b)\<bar> \<le> 2 powi (k - 54)"
proof -
  have b: "finite_number (nneg b)" "value_of (nneg b) = - value_of b"
    using nneg_finite [OF assms(2)] by simp_all
  have "\<bar>value_of a + value_of (nneg b)\<bar> < 2 powi k"
    using assms(3) by (simp add: b(2))
  from nadd_error [OF assms(1) b(1) this assms(4,5)]
  show "finite_number (nsub a b)"
    and "\<bar>value_of (nsub a b) - (value_of a - value_of b)\<bar> \<le> 2 powi (k - 54)"
    by (simp_all add: nsub_def b(2))
qed

lemma nmul_error:
  assumes "finite_number a" "finite_number b"
    and "\<bar>value_of a * value_of b\<bar> < 2 powi k" "- 1021 \<le> k" "k \<le> 1023"
  shows "finite_number (nmul a b)"
    and "\<bar>value_of (nmul a b) - value_of a * value_of b\<bar> \<le> 2 powi (k - 54)"
  using fl_error [OF assms(3-5)]
  by (simp_all add: nmul_finite [OF assms(1,2)] finite_number_zero_of two_powi_pos less_imp_le)

lemma scaled_address:
  assumes "n \<le> 2 ^ 52"
  shows "nmul (Num (real n)) (Num (real tileSize)) = Num (256 * real n)"
proof (cases "n = 0")
  case True
  then show ?thesis by (simp add: nmul_Num tileSize_def zero_of_def)
next
  case False
  have "real n \<le> 2 ^ 52"
    using assms by (metis of_nat_le_iff of_nat_numeral of_nat_power)
  then have small: "256 * real n < 2 ^ 1024" by simp
  have "int n \<le> 2 ^ 52" using assms by (metis of_nat_le_iff of_nat_numeral of_nat_power)
  then have "fl (256 * real n) = Num (256 * real n)"
    using False small by (intro fl_exact [where m = "int n" and k = 8]) simp_all
  then show ?thesis
    using False by (simp add: nmul_Num tileSize_def mult.commute)
qed

lemma next_address:
  assumes "n < 2 ^ 52"
  shows "nadd (Num (real n)) (Num 1) = Num (real (n + 1))"
proof -
  have "int n < 2 ^ 52" using assms by (metis of_nat_less_iff of_nat_numeral of_nat_power)
  moreover have "real n < 2 ^ 52" using assms by (metis of_nat_less_iff of_nat_numeral of_nat_power)
  ultimately have "fl (real n + 1) = Num (real n + 1)"
    by (intro fl_exact [where m = "int n + 1" and k = 0]) simp_all
  moreover have "real n + 1 \<noteq> 0" by (smt (verit) of_nat_0_le_iff)
  ultimately show ?thesis
    by (simp add: nadd_Num add.commute)
qed

text \<open>The offset of the edge of column or row \<open>n\<close> from the corner of the projection,
  exact and as computed.\<close>

lemma offset_le:
  assumes "n \<le> 2 ^ z"
  shows "0 \<le> 256 * real n * (2 * extent / (256 * 2 ^ z))"
    and "256 * real n * (2 * extent / (256 * 2 ^ z)) \<le> 2 * extent"
proof -
  have e: "0 < extent" by (simp add: extent_def)
  have eq: "256 * real n * (2 * extent / (256 * 2 ^ z)) = 2 * extent * (real n / 2 ^ z)"
    by simp
  have "real n \<le> 2 ^ z"
    using assms by (metis of_nat_le_iff of_nat_numeral of_nat_power)
  then have "real n / 2 ^ z \<le> 1" by simp
  then have "2 * extent * (real n / 2 ^ z) \<le> 2 * extent * 1"
    using e by (intro mult_left_mono) simp_all
  then show "256 * real n * (2 * extent / (256 * 2 ^ z)) \<le> 2 * extent"
    unfolding eq by simp
  show "0 \<le> 256 * real n * (2 * extent / (256 * 2 ^ z))"
    using e by simp
qed

lemma offset_product:
  assumes "z \<le> 52" "n \<le> 2 ^ z"
  defines "a \<equiv> nmul (nmul (Num (real n)) (Num (real tileSize))) (getResolution (Num (real z)))"
  shows "finite_number a"
    and "\<bar>value_of a - 256 * real n * (2 * extent / (256 * 2 ^ z))\<bar> \<le> 1 / 2 ^ 28"
proof -
  let ?R = "2 * extent / (256 * 2 ^ z)"
  have "(2 :: nat) ^ z \<le> 2 ^ 52" using assms(1) by (intro power_increasing) simp_all
  then have n: "n \<le> 2 ^ 52" using assms(2) by linarith
  have a: "a = nmul (Num (256 * real n)) (Num ?R)"
    unfolding a_def scaled_address [OF n] using assms(1) by (simp add: getResolution_nat)
  have "\<bar>256 * real n * ?R\<bar> < 2 powi 26"
    using offset_le [OF assms(2)] by (simp add: extent_def)
  then have bound: "\<bar>value_of (Num (256 * real n)) * value_of (Num ?R)\<bar> < 2 powi 26"
    by (simp add: value_of_def)
  have "finite_number a \<and> \<bar>value_of a - value_of (Num (256 * real n)) * value_of (Num ?R)\<bar>
          \<le> 2 powi (26 - 54)"
    unfolding a using nmul_error [OF finite_number_Num finite_number_Num bound] by simp
  then show "finite_number a" and "\<bar>value_of a - 256 * real n * ?R\<bar> \<le> 1 / 2 ^ 28"
    by (simp_all add: value_of_def)
qed

lemma offset_window:
  assumes "\<bar>v - P\<bar> \<le> 1 / 2 ^ 28" "0 \<le> P" "P \<le> 2 * extent"
  shows "\<bar>v - extent\<bar> < 2 powi 25" and "\<bar>extent - v\<bar> < 2 powi 25"
proof -
  have e: "extent < 20037509" by (simp add: extent_def)
  have "\<bar>v - P\<bar> \<le> 1 / 268435456" using assms(1) by simp
  then have "\<bar>v - extent\<bar> < 33554432" using assms(2,3) e by linarith
  then show "\<bar>v - extent\<bar> < 2 powi 25" and "\<bar>extent - v\<bar> < 2 powi 25"
    by simp_all
qed

lemma two_roundings:
  fixes v P w e :: real
  assumes "\<bar>v - P\<bar> \<le> 1 / 2 ^ 28" "\<bar>w - (v - e)\<bar> \<le> 1 / 2 ^ 29"
  shows "\<bar>w - (P - e)\<bar> \<le> 3 / 2 ^ 29"
proof -
  have "\<bar>v - P\<bar> \<le> 1 / 268435456" "\<bar>w - (v - e)\<bar> \<le> 1 / 536870912"
    using assms by simp_all
  then have "\<bar>w - (P - e)\<bar> \<le> 3 / 536870912" by linarith
  then show ?thesis by simp
qed

lemma two_roundings':
  fixes v P w e :: real
  assumes "\<bar>v - P\<bar> \<le> 1 / 2 ^ 28" "\<bar>w - (e - v)\<bar> \<le> 1 / 2 ^ 29"
  shows "\<bar>w - (e - P)\<bar> \<le> 3 / 2 ^ 29"
proof -
  have "\<bar>v - P\<bar> \<le> 1 / 268435456" "\<bar>w - (e - v)\<bar> \<le> 1 / 536870912"
    using assms by simp_all
  then have "\<bar>w - (e - P)\<bar> \<le> 3 / 536870912" by linarith
  then show ?thesis by simp
qed

lemma x_edge_error:
  assumes "z \<le> 52" "n \<le> 2 ^ z"
  shows "finite_number (x_edge z n)"
    and "\<bar>value_of (x_edge z n) - (real n * real tileSize * (2 * extent / (real tileSize * 2 ^ z)) - extent)\<bar>
           \<le> 3 / 2 ^ 29"
proof -
  let ?P = "256 * real n * (2 * extent / (256 * 2 ^ z))"
  let ?a = "nmul (nmul (Num (real n)) (Num (real tileSize))) (getResolution (Num (real z)))"
  have fa: "finite_number ?a" and ea: "\<bar>value_of ?a - ?P\<bar> \<le> 1 / 2 ^ 28"
    using offset_product [OF assms] by simp_all
  have "\<bar>value_of ?a - extent\<bar> < 2 powi 25"
    using ea offset_le [OF assms(2)] by (rule offset_window(1))
  then have bound: "\<bar>value_of ?a - value_of (Num extent)\<bar> < 2 powi 25"
    by (simp add: value_of_def)
  have "finite_number (nsub ?a (Num extent)) \<and>
        \<bar>value_of (nsub ?a (Num extent)) - (value_of ?a - value_of (Num extent))\<bar> \<le> 2 powi (25 - 54)"
    using nsub_error [OF fa finite_number_Num bound] by simp
  then have fin: "finite_number (x_edge z n)"
    and eb: "\<bar>value_of (x_edge z n) - (value_of ?a - extent)\<bar> \<le> 1 / 2 ^ 29"
    by (simp_all add: x_edge_def webMercatorExtent_value value_of_def)
  from ea eb have "\<bar>value_of (x_edge z n) - (?P - extent)\<bar> \<le> 3 / 2 ^ 29"
    by (rule two_roundings)
  then show "\<bar>value_of (x_edge z n) - (real n * real tileSize * (2 * extent / (real tileSize * 2 ^ z)) - extent)\<bar>
           \<le> 3 / 2 ^ 29"
    by (simp add: tileSize_def mult.commute)
  show "finite_number (x_edge z n)" by (rule fin)
qed

lemma y_edge_error:
  assumes "z \<le> 52" "n \<le> 2 ^ z"
  shows "finite_number (y_edge z n)"
    and "\<bar>value_of (y_edge z n) - (extent - real n * real tileSize * (2 * extent / (real tileSize * 2 ^ z)))\<bar>
           \<le> 3 / 2 ^ 29"
proof -
  let ?P = "256 * real n * (2 * extent / (256 * 2 ^ z))"
  let ?a = "nmul (nmul (Num (real n)) (Num (real tileSize))) (getResolution (Num (real z)))"
  have fa: "finite_number ?a" and ea: "\<bar>value_of ?a - ?P\<bar> \<le> 1 / 2 ^ 28"
    using offset_product [OF assms] by simp_all
  have "\<bar>extent - value_of ?a\<bar> < 2 powi 25"
    using ea offset_le [OF assms(2)] by (rule offset_window(2))
  then have bound: "\<bar>value_of (Num extent) - value_of ?a\<bar> < 2 powi 25"
    by (simp add: value_of_def)
  have "finite_number (nsub (Num extent) ?a) \<and>
        \<bar>value_of (nsub (Num extent) ?a) - (value_of (Num extent) - value_of ?a)\<bar> \<le> 2 powi (25 - 54)"
    using nsub_error [OF finite_number_Num fa bound] by simp
  then have fin: "finite_number (y_edge z n)"
    and eb: "\<bar>value_of (y_edge z n) - (extent - value_of ?a)\<bar> \<le> 1 / 2 ^ 29"
    by (simp_all add: y_edge_def webMercatorExtent_value value_of_def)
  from ea eb have "\<bar>value_of (y_edge z n) - (extent - ?P)\<bar> \<le> 3 / 2 ^ 29"
    by (rule two_roundings')
  then show "\<bar>value_of (y_edge z n) - (extent - real n * real tileSize * (2 * extent / (real tileSize * 2 ^ z)))\<bar>
           \<le> 3 / 2 ^ 29"
    by (simp add: tileSize_def mult.commute)
  show "finite_number (y_edge z n)" by (rule fin)
qed

lemma tileToWebMercator_edges:
  assumes "c < 2 ^ 52" "r < 2 ^ 52"
  shows "tileToWebMercator (Num (real c)) (Num (real r)) (Num (real z))
           = (x_edge z c, y_edge z (r + 1), x_edge z (c + 1), y_edge z r)"
  unfolding tileToWebMercator_def Let_def next_address [OF assms(1)] next_address [OF assms(2)]
  by (simp add: x_edge_def y_edge_def)

lemma fl_nat: "n < 2 ^ 53 \<Longrightarrow> fl (real n) = Num (real n)"
proof (cases "n = 0")
  case True
  then show ?thesis by (simp add: fl_def)
next
  case False
  assume "n < 2 ^ 53"
  then have "int n < 2 ^ 53" "real n < 2 ^ 53"
    by (metis of_nat_less_iff of_nat_numeral of_nat_power)+
  then show ?thesis
    using False by (intro fl_exact [where m = "int n" and k = 0]) simp_all
qed

lemma tile_spacing:
  assumes "z \<le> 51"
  shows "3 / 2 ^ 28 < real tileSize * (2 * extent / (real tileSize * 2 ^ z))"
proof -
  have "(2 :: real) ^ z \<le> 2 ^ 51"
    using assms by (intro power_increasing) simp_all
  then have "2 * extent / 2 ^ 51 \<le> 2 * extent / 2 ^ z"
    by (intro divide_left_mono) (simp_all add: extent_def)
  moreover have "3 / 2 ^ 28 < 2 * extent / 2 ^ 51"
    by (simp add: extent_def)
  ultimately show ?thesis
    by (simp add: tileSize_def)
qed

lemma succ_scaled: "real (n + 1) * t * s = real n * t * s + t * (s :: real)"
  by (simp add: algebra_simps)

lemma strictly_below:
  fixes a b u s :: real
  assumes "\<bar>a - (e - u)\<bar> \<le> 3 / 2 ^ 29" "\<bar>b - (e - (u + s))\<bar> \<le> 3 / 2 ^ 29" "3 / 2 ^ 28 < s"
  shows "b < a"
proof -
  have "\<bar>a - (e - u)\<bar> \<le> 3 / 536870912" "\<bar>b - (e - (u + s))\<bar> \<le> 3 / 536870912"
       "3 / 268435456 < s"
    using assms by simp_all
  then show ?thesis by linarith
qed

lemma extent_apart:
  fixes a b u s :: real
  assumes "\<bar>a - (u - e)\<bar> \<le> 3 / 2 ^ 29" "\<bar>b - (u + s - e)\<bar> \<le> 3 / 2 ^ 29"
  shows "\<bar>b - a - s\<bar> \<le> 3 / 2 ^ 28"
proof -
  have "\<bar>a - (u - e)\<bar> \<le> 3 / 536870912" "\<bar>b - (u + s - e)\<bar> \<le> 3 / 536870912"
    using assms by simp_all
  then have "\<bar>b - a - s\<bar> \<le> 3 / 268435456" by linarith
  then show ?thesis by simp
qed

lemma extent_apart':
  fixes a b u s :: real
  assumes "\<bar>a - (e - u)\<bar> \<le> 3 / 2 ^ 29" "\<bar>b - (e - (u + s))\<bar> \<le> 3 / 2 ^ 29"
  shows "\<bar>a - b - s\<bar> \<le> 3 / 2 ^ 28"
proof -
  have "\<bar>a - (e - u)\<bar> \<le> 3 / 536870912" "\<bar>b - (e - (u + s))\<bar> \<le> 3 / 536870912"
    using assms by simp_all
  then have "\<bar>a - b - s\<bar> \<le> 3 / 268435456" by linarith
  then show ?thesis by simp
qed

text \<open>
  C1, amended. For every zoom \<open>z\<close> from 0 to 51 and every column \<open>c\<close> and row
  \<open>r\<close> below \<open>2 ^ z\<close>, \<open>tileToWebMercator(c, r, z)\<close> returns four finite
  numbers, each within \<open>3 / 2 ^ 29\<close> of the exact value of its formula:
  \<open>minX\<close> of \<open>c * tileSize * res - extent\<close>, \<open>maxX\<close> of
  \<open>(c + 1) * tileSize * res - extent\<close>, \<open>maxY\<close> of \<open>extent - r * tileSize * res\<close>
  and \<open>minY\<close> of \<open>extent - (r + 1) * tileSize * res\<close>, where \<open>extent\<close> is the
  value of \<open>webMercatorExtent\<close> and \<open>res = 2 * extent / (tileSize * 2 ^ z)\<close>. The
  row axis is inverted: \<open>minY < maxY\<close>, and the \<open>maxY\<close> of row \<open>r + 1\<close> is the
  \<open>minY\<close> of row \<open>r\<close>.
\<close>

theorem tileToWebMercator_within_rounding:
  assumes "z \<le> 51" "c < 2 ^ z" "r < 2 ^ z"
  shows "\<exists>minX minY maxX maxY.
           tileToWebMercator (Num (real c)) (Num (real r)) (Num (real z))
             = (minX, minY, maxX, maxY) \<and>
           finite_number minX \<and> finite_number minY \<and>
           finite_number maxX \<and> finite_number maxY \<and>
           (let res = 2 * extent / (real tileSize * 2 ^ z) in
              \<bar>value_of minX - (real c * real tileSize * res - extent)\<bar> \<le> 3 / 2 ^ 29 \<and>
              \<bar>value_of maxX - (real (c + 1) * real tileSize * res - extent)\<bar> \<le> 3 / 2 ^ 29 \<and>
              \<bar>value_of maxY - (extent - real r * real tileSize * res)\<bar> \<le> 3 / 2 ^ 29 \<and>
              \<bar>value_of minY - (extent - real (r + 1) * real tileSize * res)\<bar> \<le> 3 / 2 ^ 29) \<and>
           value_of minY < value_of maxY \<and>
           snd (snd (snd (tileToWebMercator (Num (real c)) (Num (real (r + 1))) (Num (real z)))))
             = minY"
proof -
  let ?res = "2 * extent / (real tileSize * 2 ^ z)"
  have "(2 :: nat) ^ z \<le> 2 ^ 51" using assms(1) by (intro power_increasing) simp_all
  then have small: "c < 2 ^ 52" "r < 2 ^ 52" using assms(2,3) by simp_all
  have z: "z \<le> 52" using assms(1) by simp
  have n: "c \<le> 2 ^ z" "c + 1 \<le> 2 ^ z" "r \<le> 2 ^ z" "r + 1 \<le> 2 ^ z"
    using assms(2,3) by simp_all
  have box: "tileToWebMercator (Num (real c)) (Num (real r)) (Num (real z))
               = (x_edge z c, y_edge z (r + 1), x_edge z (c + 1), y_edge z r)"
    using small by (rule tileToWebMercator_edges)
  have top: "\<bar>value_of (y_edge z r) - (extent - real r * real tileSize * ?res)\<bar> \<le> 3 / 2 ^ 29"
    using z n(3) by (rule y_edge_error(2))
  have bottom: "\<bar>value_of (y_edge z (r + 1)) - (extent - real (r + 1) * real tileSize * ?res)\<bar>
                  \<le> 3 / 2 ^ 29"
    using z n(4) by (rule y_edge_error(2))
  have "real (r + 1) * real tileSize * ?res = real r * real tileSize * ?res + real tileSize * ?res"
    by (rule succ_scaled)
  then have "\<bar>value_of (y_edge z (r + 1))
               - (extent - (real r * real tileSize * ?res + real tileSize * ?res))\<bar> \<le> 3 / 2 ^ 29"
    using bottom by simp
  with top have below: "value_of (y_edge z (r + 1)) < value_of (y_edge z r)"
    using tile_spacing [OF assms(1)] by (rule strictly_below)
  have next_row: "snd (snd (snd (tileToWebMercator (Num (real c)) (Num (real (r + 1))) (Num (real z)))))
                    = y_edge z (r + 1)"
    by (simp add: tileToWebMercator_def y_edge_def Let_def)
  have "tileToWebMercator (Num (real c)) (Num (real r)) (Num (real z))
          = (x_edge z c, y_edge z (r + 1), x_edge z (c + 1), y_edge z r) \<and>
        finite_number (x_edge z c) \<and> finite_number (y_edge z (r + 1)) \<and>
        finite_number (x_edge z (c + 1)) \<and> finite_number (y_edge z r) \<and>
        (\<bar>value_of (x_edge z c) - (real c * real tileSize * ?res - extent)\<bar> \<le> 3 / 2 ^ 29 \<and>
         \<bar>value_of (x_edge z (c + 1)) - (real (c + 1) * real tileSize * ?res - extent)\<bar>
           \<le> 3 / 2 ^ 29 \<and>
         \<bar>value_of (y_edge z r) - (extent - real r * real tileSize * ?res)\<bar> \<le> 3 / 2 ^ 29 \<and>
         \<bar>value_of (y_edge z (r + 1)) - (extent - real (r + 1) * real tileSize * ?res)\<bar>
           \<le> 3 / 2 ^ 29) \<and>
        value_of (y_edge z (r + 1)) < value_of (y_edge z r) \<and>
        snd (snd (snd (tileToWebMercator (Num (real c)) (Num (real (r + 1))) (Num (real z)))))
          = y_edge z (r + 1)"
    using box x_edge_error [OF z n(1)] x_edge_error [OF z n(2)]
          y_edge_error(1) [OF z n(3)] y_edge_error(1) [OF z n(4)] top bottom below next_row
    by (intro conjI)
  then show ?thesis
    unfolding Let_def by blast
qed

text \<open>
  C8, amended. For every zoom \<open>z\<close> from 0 to 52 and every column \<open>c\<close> and row
  \<open>r\<close> below \<open>2 ^ z\<close>, the width \<open>maxX - minX\<close> and the height
  \<open>maxY - minY\<close> of the box of \<open>tileToWebMercator(c, r, z)\<close> are each within
  \<open>3 / 2 ^ 28\<close> of \<open>tileSize * getResolution(z)\<close>, and the boxes of the tiles
  \<open>(c, r)\<close> and \<open>(c + 1, r)\<close> share an edge exactly: the \<open>minX\<close> of the second
  is the \<open>maxX\<close> of the first.
\<close>

theorem tile_box_size_within_rounding:
  assumes "z \<le> 52" "c < 2 ^ z" "r < 2 ^ z"
  shows "\<exists>minX minY maxX maxY res.
           getResolution (Num (real z)) = Num res \<and>
           res = 2 * extent / (real tileSize * 2 ^ z) \<and>
           tileToWebMercator (Num (real c)) (Num (real r)) (Num (real z))
             = (minX, minY, maxX, maxY) \<and>
           finite_number minX \<and> finite_number minY \<and>
           finite_number maxX \<and> finite_number maxY \<and>
           \<bar>value_of maxX - value_of minX - real tileSize * res\<bar> \<le> 3 / 2 ^ 28 \<and>
           \<bar>value_of maxY - value_of minY - real tileSize * res\<bar> \<le> 3 / 2 ^ 28 \<and>
           fst (tileToWebMercator (Num (real (c + 1))) (Num (real r)) (Num (real z))) = maxX"
proof -
  let ?res = "2 * extent / (real tileSize * 2 ^ z)"
  have "(2 :: nat) ^ z \<le> 2 ^ 52" using assms(1) by (intro power_increasing) simp_all
  then have small: "c < 2 ^ 52" "r < 2 ^ 52" using assms(2,3) by simp_all
  have n: "c \<le> 2 ^ z" "c + 1 \<le> 2 ^ z" "r \<le> 2 ^ z" "r + 1 \<le> 2 ^ z"
    using assms(2,3) by simp_all
  have res: "getResolution (Num (real z)) = Num ?res"
    using assms(1) by (simp add: getResolution_nat tileSize_def)
  have box: "tileToWebMercator (Num (real c)) (Num (real r)) (Num (real z))
               = (x_edge z c, y_edge z (r + 1), x_edge z (c + 1), y_edge z r)"
    using small by (rule tileToWebMercator_edges)
  have left: "\<bar>value_of (x_edge z c) - (real c * real tileSize * ?res - extent)\<bar> \<le> 3 / 2 ^ 29"
    using assms(1) n(1) by (rule x_edge_error(2))
  have "\<bar>value_of (x_edge z (c + 1)) - (real (c + 1) * real tileSize * ?res - extent)\<bar> \<le> 3 / 2 ^ 29"
    using assms(1) n(2) by (rule x_edge_error(2))
  moreover have "real (c + 1) * real tileSize * ?res
                   = real c * real tileSize * ?res + real tileSize * ?res"
    by (rule succ_scaled)
  ultimately have "\<bar>value_of (x_edge z (c + 1))
                     - (real c * real tileSize * ?res + real tileSize * ?res - extent)\<bar> \<le> 3 / 2 ^ 29"
    by simp
  with left have width:
    "\<bar>value_of (x_edge z (c + 1)) - value_of (x_edge z c) - real tileSize * ?res\<bar> \<le> 3 / 2 ^ 28"
    by (rule extent_apart)
  have top: "\<bar>value_of (y_edge z r) - (extent - real r * real tileSize * ?res)\<bar> \<le> 3 / 2 ^ 29"
    using assms(1) n(3) by (rule y_edge_error(2))
  have "\<bar>value_of (y_edge z (r + 1)) - (extent - real (r + 1) * real tileSize * ?res)\<bar> \<le> 3 / 2 ^ 29"
    using assms(1) n(4) by (rule y_edge_error(2))
  moreover have "real (r + 1) * real tileSize * ?res
                   = real r * real tileSize * ?res + real tileSize * ?res"
    by (rule succ_scaled)
  ultimately have "\<bar>value_of (y_edge z (r + 1))
                     - (extent - (real r * real tileSize * ?res + real tileSize * ?res))\<bar> \<le> 3 / 2 ^ 29"
    by simp
  with top have height:
    "\<bar>value_of (y_edge z r) - value_of (y_edge z (r + 1)) - real tileSize * ?res\<bar> \<le> 3 / 2 ^ 28"
    by (rule extent_apart')
  have next_column: "fst (tileToWebMercator (Num (real (c + 1))) (Num (real r)) (Num (real z)))
                       = x_edge z (c + 1)"
    by (simp add: tileToWebMercator_def x_edge_def Let_def)
  have "getResolution (Num (real z)) = Num ?res \<and> ?res = 2 * extent / (real tileSize * 2 ^ z) \<and>
        tileToWebMercator (Num (real c)) (Num (real r)) (Num (real z))
          = (x_edge z c, y_edge z (r + 1), x_edge z (c + 1), y_edge z r) \<and>
        finite_number (x_edge z c) \<and> finite_number (y_edge z (r + 1)) \<and>
        finite_number (x_edge z (c + 1)) \<and> finite_number (y_edge z r) \<and>
        \<bar>value_of (x_edge z (c + 1)) - value_of (x_edge z c) - real tileSize * ?res\<bar>
          \<le> 3 / 2 ^ 28 \<and>
        \<bar>value_of (y_edge z r) - value_of (y_edge z (r + 1)) - real tileSize * ?res\<bar>
          \<le> 3 / 2 ^ 28 \<and>
        fst (tileToWebMercator (Num (real (c + 1))) (Num (real r)) (Num (real z)))
          = x_edge z (c + 1)"
    using res box x_edge_error(1) [OF assms(1) n(1)] x_edge_error(1) [OF assms(1) n(2)]
          y_edge_error(1) [OF assms(1) n(3)] y_edge_error(1) [OF assms(1) n(4)]
          width height next_column
    by (intro conjI refl)
  then show ?thesis
    by blast
qed

subsection \<open>Computed boxes\<close>

text \<open>
  Two boxes, computed rounding by rounding. Each rounding is certified by the
  integer it rounds to, in units of the last place.
\<close>

lemma getResolution_3: "getResolution (Num 3) = Num (5378777689100423 / 274877906944)"
  using getResolution_nat [of 3] by (simp add: extent_def)

lemma getResolution_55:
  "getResolution (Num 55) = Num (5378777689100423 / 1237940039285380274899124224)"
  using getResolution_nat [of 55] by (simp add: extent_def)

lemma webMercatorExtent_numeral: "webMercatorExtent = Num (5378777689100423 / 268435456)"
  by (simp add: webMercatorExtent_value extent_def)

text \<open>
  C8, as it is stated, fails: the bounds are rounded separately, and the differences of
  the rounded bounds are not the rounded tile size. The box of column 3, row 5 at zoom 3
  has width \<open>672347211137553 / 2 ^ 27\<close> and height \<open>1344694422275105 / 2 ^ 28\<close>,
  which differ, and 256 times the resolution is \<open>5378777689100423 / 2 ^ 30\<close>.
\<close>

theorem tile_3_5_3_counterexample:
  "tileToWebMercator (Num 3) (Num 5) (Num 3) =
     (Num (- (672347211137553 / 134217728)), Num (- (2689388844550211 / 268435456)),
      Num 0, Num (- (672347211137553 / 134217728))) \<and>
   getResolution (Num 3) = Num (5378777689100423 / 274877906944) \<and>
   (0 :: real) - (- (672347211137553 / 134217728)) \<noteq> 256 * (5378777689100423 / 274877906944) \<and>
   (- (672347211137553 / 134217728) :: real) - (- (2689388844550211 / 268435456))
     \<noteq> 0 - (- (672347211137553 / 134217728))"
proof -
  let ?R = "5378777689100423 / 274877906944 :: real"
  let ?E = "5378777689100423 / 268435456 :: real"
  have c4: "nadd (Num 3) (Num 1) = Num 4" and r6: "nadd (Num 5) (Num 1) = Num 6"
    using fl_nat [of 4] fl_nat [of 6] by (simp_all add: nadd_Num)
  have t3: "nmul (Num 3) (Num 256) = Num 768" and t4: "nmul (Num 4) (Num 256) = Num 1024"
    and t5: "nmul (Num 5) (Num 256) = Num 1280" and t6: "nmul (Num 6) (Num 256) = Num 1536"
    using fl_nat [of 768] fl_nat [of 1024] fl_nat [of 1280] fl_nat [of 1536]
    by (simp_all add: nmul_Num)
  have p3: "nmul (Num 768) (Num ?R) = Num (4034083266825317 / 268435456)"
    using fl_tie [of 23 "768 * ?R" "- 29" 8068166533650634] by (simp add: nmul_Num)
  have p4: "nmul (Num 1024) (Num ?R) = Num ?E"
    using fl_exact [of "1024 * ?R" 5378777689100423 "- 28"] by (simp add: nmul_Num)
  have p5: "nmul (Num 1280) (Num ?R) = Num (6723472111375529 / 268435456)"
    using fl_near [of 24 "1280 * ?R" "- 28" 6723472111375529] by (simp add: nmul_Num)
  have p6: "nmul (Num 1536) (Num ?R) = Num (4034083266825317 / 134217728)"
    using fl_tie [of 24 "1536 * ?R" "- 28" 8068166533650634] by (simp add: nmul_Num)
  have x3: "nsub (Num (4034083266825317 / 268435456)) (Num ?E) = Num (- (672347211137553 / 134217728))"
    using fl_exact [of "4034083266825317 / 268435456 - ?E" "- 672347211137553" "- 27"]
    by (simp add: nsub_Num)
  have x4: "nsub (Num ?E) (Num ?E) = Num 0"
    by (simp add: nsub_Num)
  have y5: "nsub (Num ?E) (Num (6723472111375529 / 268435456)) = Num (- (672347211137553 / 134217728))"
    using fl_exact [of "?E - 6723472111375529 / 268435456" "- 672347211137553" "- 27"]
    by (simp add: nsub_Num)
  have y6: "nsub (Num ?E) (Num (4034083266825317 / 134217728)) = Num (- (2689388844550211 / 268435456))"
    using fl_exact [of "?E - 4034083266825317 / 134217728" "- 2689388844550211" "- 28"]
    by (simp add: nsub_Num)
  have "tileToWebMercator (Num 3) (Num 5) (Num 3) =
     (Num (- (672347211137553 / 134217728)), Num (- (2689388844550211 / 268435456)),
      Num 0, Num (- (672347211137553 / 134217728)))"
    unfolding tileToWebMercator_def Let_def tileSize_def getResolution_3 webMercatorExtent_numeral
    by (simp add: c4 r6 t3 t4 t5 t6 p3 p4 p5 p6 x3 x4 y5 y6)
  then show ?thesis
    using getResolution_3 by simp
qed

lemma tileToWebMercator_0_0_55:
  "tileToWebMercator (Num 0) (Num 0) (Num 55) =
     (Num (- (5378777689100423 / 268435456)), Num (5378777689100423 / 268435456),
      Num (- (5378777689100423 / 268435456)), Num (5378777689100423 / 268435456))"
proof -
  let ?R = "5378777689100423 / 1237940039285380274899124224 :: real"
  let ?E = "5378777689100423 / 268435456 :: real"
  let ?S = "5378777689100423 / 4835703278458516698824704 :: real"
  have one: "nadd (Num 0) (Num 1) = Num 1"
    using fl_nat [of 1] by (simp add: nadd_Num)
  have t0: "nmul (Num 0) (Num 256) = Num 0" and t1: "nmul (Num 1) (Num 256) = Num 256"
    using fl_nat [of 256] by (simp_all add: nmul_Num zero_of_def)
  have p0: "nmul (Num 0) (Num ?R) = Num 0"
    by (simp add: nmul_Num zero_of_def)
  have p1: "nmul (Num 256) (Num ?R) = Num ?S"
    using fl_exact [of "256 * ?R" 5378777689100423 "- 82"] by (simp add: nmul_Num)
  have x0: "nsub (Num 0) (Num ?E) = Num (- ?E)"
    using fl_exact [of "- ?E" "- 5378777689100423" "- 28"] by (simp add: nsub_Num)
  have x1: "nsub (Num ?S) (Num ?E) = Num (- ?E)"
    using fl_near [of 24 "?S - ?E" "- 28" 5378777689100423] by (simp add: nsub_Num)
  have y0: "nsub (Num ?E) (Num 0) = Num ?E"
    using fl_exact [of "?E" "5378777689100423" "- 28"] by (simp add: nsub_Num)
  have y1: "nsub (Num ?E) (Num ?S) = Num ?E"
    using fl_near [of 24 "?E - ?S" "- 28" 5378777689100423] by (simp add: nsub_Num)
  show ?thesis
    unfolding tileToWebMercator_def Let_def tileSize_def getResolution_55 webMercatorExtent_numeral
    by (simp add: one t0 t1 p0 p1 x0 x1 y0 y1)
qed

text \<open>
  C1, as it is stated, fails: the bounds are binary64 numbers and not the exact values
  of the formulas. At zoom 55 the width of a tile is less than half the distance
  between \<open>extent\<close> and its binary64 neighbours, and the box of column 0, row 0 has
  \<open>maxX = minX\<close> and \<open>minY = maxY\<close>: the row axis is not inverted there.
\<close>

theorem tile_zoom_55_counterexample:
  "webMercatorExtent = Num extent \<and>
   tileToWebMercator (Num 0) (Num 0) (Num 55)
     = (Num (- extent), Num extent, Num (- extent), Num extent) \<and>
   (0 + 1) * real tileSize * (2 * extent / (real tileSize * 2 ^ 55)) - extent \<noteq> - extent \<and>
   extent - (0 + 1) * real tileSize * (2 * extent / (real tileSize * 2 ^ 55)) \<noteq> extent"
proof -
  have "tileToWebMercator (Num 0) (Num 0) (Num 55)
     = (Num (- extent), Num extent, Num (- extent), Num extent)"
    using tileToWebMercator_0_0_55 by (simp add: extent_def)
  moreover have "(0 + 1) * real tileSize * (2 * extent / (real tileSize * 2 ^ 55)) - extent \<noteq> - extent"
    "extent - (0 + 1) * real tileSize * (2 * extent / (real tileSize * 2 ^ 55)) \<noteq> extent"
    by (simp_all add: extent_def tileSize_def)
  ultimately show ?thesis
    using webMercatorExtent_value by simp
qed

text \<open>Column 3, row 5 at zoom 3.\<close>

theorem tileToWebMercator_within_rounding_witness:
  "(3 :: nat) \<le> 51 \<and> (3 :: nat) < 2 ^ 3 \<and> (5 :: nat) < 2 ^ 3 \<and>
   (\<exists>minX minY maxX maxY.
      tileToWebMercator (Num (real 3)) (Num (real 5)) (Num (real 3)) = (minX, minY, maxX, maxY) \<and>
      value_of minY < value_of maxY)"
proof -
  have z: "(3 :: nat) \<le> 51" and c: "(3 :: nat) < 2 ^ 3" and r: "(5 :: nat) < 2 ^ 3"
    by simp_all
  show ?thesis
    using tileToWebMercator_within_rounding [OF z c r] z c r by blast
qed

text \<open>Column 3, row 5 at zoom 3, and its neighbour to the right.\<close>

theorem tile_box_size_within_rounding_witness:
  "(3 :: nat) \<le> 52 \<and> (3 :: nat) < 2 ^ 3 \<and> (5 :: nat) < 2 ^ 3 \<and>
   (\<exists>minX minY maxX maxY res.
      getResolution (Num (real 3)) = Num res \<and>
      tileToWebMercator (Num (real 3)) (Num (real 5)) (Num (real 3)) = (minX, minY, maxX, maxY) \<and>
      \<bar>value_of maxX - value_of minX - real tileSize * res\<bar> \<le> 3 / 2 ^ 28 \<and>
      fst (tileToWebMercator (Num (real (3 + 1))) (Num (real 5)) (Num (real 3))) = maxX)"
proof -
  have z: "(3 :: nat) \<le> 52" and c: "(3 :: nat) < 2 ^ 3" and r: "(5 :: nat) < 2 ^ 3"
    by simp_all
  show ?thesis
    using tile_box_size_within_rounding [OF z c r] z c r by blast
qed

section \<open>Properties of the window resolver\<close>

text \<open>
  The resolution of an image of the raster library is an array of three numbers, which
  the divisions of \<open>webMercatorToPixel\<close> read as \<open>NaN\<close>; \<open>Math.round\<close>,
  \<open>Math.min\<close> and \<open>Math.max\<close> keep it.
\<close>

lemma ndiv_NaN: "ndiv a NaN = NaN"
  by (simp add: ndiv_def)

lemma Math_round_NaN: "Math_round NaN = NaN"
  by (simp add: Math_round_def)

lemma Math_min_NaN: "Math_min NaN b = NaN"
  by (simp add: Math_min_def)

lemma Math_max_NaN: "Math_max a NaN = NaN"
  by (simp add: Math_max_def)

lemma array_to_number_long: "array_to_number (rx # ry # rest) = NaN"
  by (simp add: array_to_number_def)

lemma webMercatorToPixel_array_resolution:
  assumes "image_resolution img = Some (rx # ry # rest)"
  shows "webMercatorToPixel bbox img = (NaN, NaN, NaN, NaN)"
proof -
  have r: "imageResolution img = NaN"
    using assms by (simp add: imageResolution_def array_to_number_long)
  show ?thesis
    unfolding webMercatorToPixel_def Let_def r ndiv_NaN Math_round_NaN Math_min_NaN Math_max_NaN
    by (simp split: prod.splits)
qed

lemma number_le_NaN: "\<not> number_le a NaN" "\<not> number_le NaN b"
  by (simp_all add: number_le_def)

text \<open>
  C2. For the raster of 5 by 3 pixels with origin \<open>(0, 30)\<close> and resolution
  \<open>[10, -10, 0]\<close>, whose extent is the box from \<open>(0, 0)\<close> to \<open>(50, 30)\<close>,
  \<open>webMercatorToPixel\<close> applied to that extent returns
  \<open>(NaN, NaN, NaN, NaN)\<close> and not the window \<open>(0, 0, 5, 3)\<close>.
\<close>

theorem full_extent_window_geotiff:
  "webMercatorToPixel (Num 0, Num 0, Num 50, Num 30) geotiff_example = (NaN, NaN, NaN, NaN) \<and>
   webMercatorToPixel (Num 0, Num 0, Num 50, Num 30) geotiff_example
     \<noteq> (Num 0, Num 0, Num (real (image_width geotiff_example)),
         Num (real (image_height geotiff_example)))"
proof -
  have "image_resolution geotiff_example = Some (Num 10 # Num (- 10) # [Num 0])"
    by (simp add: geotiff_example_def)
  then have "webMercatorToPixel (Num 0, Num 0, Num 50, Num 30) geotiff_example
               = (NaN, NaN, NaN, NaN)"
    by (rule webMercatorToPixel_array_resolution)
  then show ?thesis by simp
qed

text \<open>
  C10. For the same raster and the box from \<open>(12, 4)\<close> to \<open>(38, 21)\<close>, which lies
  inside its extent, the four bounds that \<open>webMercatorToPixel\<close> returns are
  \<open>NaN\<close>, and none of \<open>0 \<le> left \<le> right \<le> width\<close> and
  \<open>0 \<le> top \<le> bottom \<le> height\<close> holds of them.
\<close>

theorem window_bounds_geotiff:
  "(case webMercatorToPixel (Num 12, Num 4, Num 38, Num 21) geotiff_example of
      (l, t, r, b) \<Rightarrow>
        l = NaN \<and> t = NaN \<and> r = NaN \<and> b = NaN \<and>
        \<not> number_le (Num 0) l \<and> \<not> number_le l r \<and>
        \<not> number_le r (Num (real (image_width geotiff_example))) \<and>
        \<not> number_le (Num 0) t \<and> \<not> number_le t b \<and>
        \<not> number_le b (Num (real (image_height geotiff_example))))"
proof -
  have "image_resolution geotiff_example = Some (Num 10 # Num (- 10) # [Num 0])"
    by (simp add: geotiff_example_def)
  then have "webMercatorToPixel (Num 12, Num 4, Num 38, Num 21) geotiff_example
               = (NaN, NaN, NaN, NaN)"
    by (rule webMercatorToPixel_array_resolution)
  then show ?thesis by (simp add: number_le_NaN)
qed














section \<open>Properties of the band compositor\<close>

lemma pixel_step_three_bands:
  assumes "3 \<le> length rasters"
  shows "pixel_step alpha rasters i buf =
           Inr (buf[i * 4 := toUint8 (band_sample (rasters ! 0) i),
                    i * 4 + 1 := toUint8 (band_sample (rasters ! 1) i),
                    i * 4 + 2 := toUint8 (band_sample (rasters ! 2) i),
                    i * 4 + 3 := alpha])"
proof -
  have "0 < length rasters" "1 < length rasters" "2 < length rasters"
    using assms by linarith+
  then show ?thesis
    by (simp add: pixel_step_def sample_def)
qed

lemma pixel_step_few_bands:
  assumes "length rasters < 3"
  shows "pixel_step alpha rasters i buf = Inl TypeError"
proof -
  consider "length rasters = 0" | "length rasters = 1" | "length rasters = 2"
    using assms by linarith
  then show ?thesis
    by cases (simp_all add: pixel_step_def sample_def)
qed

lemma rgba_loop_few_bands:
  assumes "length rasters < 3" "i < n"
  shows "rgba_loop alpha rasters n i buf = Inl TypeError"
  using assms by (simp add: pixel_step_few_bands)

lemma pixel_stored_update:
  assumes "i * 4 + 3 < length buf"
  shows "pixel_stored alpha rasters
           (buf[i * 4 := toUint8 (band_sample (rasters ! 0) i),
                i * 4 + 1 := toUint8 (band_sample (rasters ! 1) i),
                i * 4 + 2 := toUint8 (band_sample (rasters ! 2) i),
                i * 4 + 3 := alpha]) i"
  using assms by (simp add: pixel_stored_def nth_list_update)

lemma pixel_stored_cong:
  assumes "\<forall>k < (j + 1) * 4. out ! k = buf ! k" "pixel_stored alpha rasters buf j"
  shows "pixel_stored alpha rasters out j"
proof -
  have "out ! (j * 4) = buf ! (j * 4)" "out ! (j * 4 + 1) = buf ! (j * 4 + 1)"
       "out ! (j * 4 + 2) = buf ! (j * 4 + 2)" "out ! (j * 4 + 3) = buf ! (j * 4 + 3)"
    using assms(1) by simp_all
  then show ?thesis
    using assms(2) by (simp add: pixel_stored_def)
qed

text \<open>
  The loop invariant: run from \<open>i\<close> with at least three bands, the loop returns a
  buffer of the same length in which every pixel from \<open>i\<close> on is stored and every
  byte before pixel \<open>i\<close> is as it was.
\<close>

lemma rgba_loop_three_bands:
  assumes "3 \<le> length rasters"
  shows "\<exists>out. rgba_loop alpha rasters n i buf = Inr out \<and> length out = length buf \<and>
           (\<forall>j. i \<le> j \<and> j < n \<and> j * 4 + 3 < length buf \<longrightarrow> pixel_stored alpha rasters out j) \<and>
           (\<forall>k < i * 4. out ! k = buf ! k)"
  using assms
proof (induction alpha rasters n i buf rule: rgba_loop.induct)
  case (1 alpha rasters n i buf)
  show ?case
  proof (cases "i < n")
    case False
    then show ?thesis by auto
  next
    case True
    let ?buf' = "buf[i * 4 := toUint8 (band_sample (rasters ! 0) i),
                     i * 4 + 1 := toUint8 (band_sample (rasters ! 1) i),
                     i * 4 + 2 := toUint8 (band_sample (rasters ! 2) i),
                     i * 4 + 3 := alpha]"
    have step: "pixel_step alpha rasters i buf = Inr ?buf'"
      using pixel_step_three_bands [OF "1.prems"] .
    obtain out where out: "rgba_loop alpha rasters n (i + 1) ?buf' = Inr out"
        "length out = length ?buf'"
        "\<forall>j. i + 1 \<le> j \<and> j < n \<and> j * 4 + 3 < length ?buf' \<longrightarrow> pixel_stored alpha rasters out j"
        "\<forall>k < (i + 1) * 4. out ! k = ?buf' ! k"
      using "1.IH" [OF True step "1.prems"] by blast
    have res: "rgba_loop alpha rasters n i buf = Inr out"
      using True step out(1) by simp
    have len: "length out = length buf"
      using out(2) by simp
    have stored: "pixel_stored alpha rasters out j"
      if "i \<le> j" "j < n" "j * 4 + 3 < length buf" for j
    proof (cases "j = i")
      case True
      then show ?thesis
        using pixel_stored_cong [OF out(4)] pixel_stored_update that(3) by blast
    next
      case False
      then show ?thesis using that out(3) by simp
    qed
    have keep: "out ! k = buf ! k" if "k < i * 4" for k
    proof -
      have "out ! k = ?buf' ! k" using out(4) that by simp
      also have "\<dots> = buf ! k" using that by simp
      finally show ?thesis .
    qed
    show ?thesis
      using res len stored keep by blast
  qed
qed

lemma rgbaBuffer_of_three_bands:
  assumes "3 \<le> length rasters"
  shows "\<exists>out. rgbaBuffer_of alpha rasters width height = Inr out \<and>
           length out = width * height * 4 \<and>
           (\<forall>i < width * height. pixel_stored alpha rasters out i)"
proof -
  let ?buf = "replicate (width * height * 4) (0 :: byte)"
  obtain out where out: "rgba_loop alpha rasters (width * height) 0 ?buf = Inr out"
      "length out = length ?buf"
      "\<forall>j. 0 \<le> j \<and> j < width * height \<and> j * 4 + 3 < length ?buf
          \<longrightarrow> pixel_stored alpha rasters out j"
    using rgba_loop_three_bands [OF assms, of alpha "width * height" 0 ?buf]
    by blast
  have "pixel_stored alpha rasters out i" if "i < width * height" for i
  proof -
    have "i * 4 + 3 < width * height * 4" using that by simp
    then show ?thesis using out(3) that by simp
  qed
  then show ?thesis
    using out(1,2) by (simp add: rgbaBuffer_of_def)
qed

text \<open>
  C3. For three bands of at least \<open>width * height\<close> samples each, the buffer that
  \<open>convertRastersToPng\<close> hands to the encoder has exactly \<open>width * height * 4\<close>
  bytes; for every pixel \<open>i\<close> below \<open>width * height\<close>, bytes \<open>i * 4\<close>,
  \<open>i * 4 + 1\<close> and \<open>i * 4 + 2\<close> are the samples of the three bands and byte
  \<open>i * 4 + 3\<close> is the alpha constant of \<open>handler.ts\<close>, 0.
\<close>

theorem convertRastersToPng_buffer:
  assumes bands: "length rasters = 3"
    and samples: "\<forall>band \<in> set rasters. width * height \<le> length band"
  shows "\<exists>rgbaBuffer.
           rgbaBuffer_of 0 rasters width height = Inr rgbaBuffer \<and>
           convertRastersToPng env rasters width height = sharp_png env rgbaBuffer width height 4 \<and>
           length rgbaBuffer = width * height * 4 \<and>
           (\<forall>i < width * height.
              rgbaBuffer ! (i * 4) = toUint8 (rasters ! 0 ! i) \<and>
              rgbaBuffer ! (i * 4 + 1) = toUint8 (rasters ! 1 ! i) \<and>
              rgbaBuffer ! (i * 4 + 2) = toUint8 (rasters ! 2 ! i) \<and>
              rgbaBuffer ! (i * 4 + 3) = 0)"
proof -
  obtain out where out: "rgbaBuffer_of 0 rasters width height = Inr out"
      "length out = width * height * 4"
      "\<forall>i < width * height. pixel_stored 0 rasters out i"
    using rgbaBuffer_of_three_bands [of rasters 0 width height] bands by auto
  have png: "convertRastersToPng env rasters width height = sharp_png env out width height 4"
    by (simp add: convertRastersToPng_def out(1))
  have full: "band_sample (rasters ! k) i = rasters ! k ! i" if "k < 3" "i < width * height" for k i
  proof -
    have "rasters ! k \<in> set rasters" using that(1) bands by simp
    then have "width * height \<le> length (rasters ! k)" using samples by blast
    then show ?thesis using that(2) by (simp add: band_sample_def)
  qed
  have "rgbaBuffer_of 0 rasters width height = Inr out \<and>
        convertRastersToPng env rasters width height = sharp_png env out width height 4 \<and>
        length out = width * height * 4 \<and>
        (\<forall>i < width * height.
           out ! (i * 4) = toUint8 (rasters ! 0 ! i) \<and>
           out ! (i * 4 + 1) = toUint8 (rasters ! 1 ! i) \<and>
           out ! (i * 4 + 2) = toUint8 (rasters ! 2 ! i) \<and>
           out ! (i * 4 + 3) = 0)"
    using out png full by (simp add: pixel_stored_def)
  then show ?thesis by blast
qed

theorem convertRastersToPng_buffer_witness:
  "length [[Num 10, Num 11], [Num 20, Num 21], [Num 30, Num 300]] = 3 \<and>
   1 * 2 \<le> length [Num 10, Num 11] \<and> 1 * 2 \<le> length [Num 20, Num 21] \<and>
   1 * 2 \<le> length [Num 30, Num 300] \<and>
   (\<exists>rgbaBuffer.
      rgbaBuffer_of 0 [[Num 10, Num 11], [Num 20, Num 21], [Num 30, Num 300]] 1 2 = Inr rgbaBuffer \<and>
      length rgbaBuffer = 1 * 2 * 4 \<and>
      (\<forall>i < 1 * 2. rgbaBuffer ! (i * 4 + 3) = 0))"
proof -
  let ?rasters = "[[Num 10, Num 11], [Num 20, Num 21], [Num 30, Num 300]]"
  have bands: "length ?rasters = 3"
    by simp
  have samples: "\<forall>band \<in> set ?rasters. 1 * 2 \<le> length band"
    by simp
  have each: "1 * 2 \<le> length [Num 10, Num 11]" "1 * 2 \<le> length [Num 20, Num 21]"
      "1 * 2 \<le> length [Num 30, Num 300]"
    by simp_all
  show ?thesis
    using convertRastersToPng_buffer [OF bands samples, of accepting_collaborators]
          bands each
    by blast
qed

text \<open>The same two pixels, computed: the sample 300 is stored modulo 256.\<close>

lemma rgbaBuffer_of_example:
  "rgbaBuffer_of 0 [[Num 10, Num 11], [Num 20, Num 21], [Num 30, Num 300]] 1 2
     = Inr [10, 20, 30, 0, 11, 21, 44, 0]"
  by code_simp

text \<open>The earlier copy stores 255 in the alpha byte of every pixel.\<close>

lemma convertRastersToPng_part_000_alpha:
  assumes "3 \<le> length rasters"
  shows "\<exists>rgbaBuffer.
           rgbaBuffer_of 255 rasters width height = Inr rgbaBuffer \<and>
           convertRastersToPng_part_000 env rasters width height
             = sharp_png env rgbaBuffer width height 4 \<and>
           length rgbaBuffer = width * height * 4 \<and>
           (\<forall>i < width * height. rgbaBuffer ! (i * 4 + 3) = 255)"
proof -
  obtain out where out: "rgbaBuffer_of 255 rasters width height = Inr out"
      "length out = width * height * 4"
      "\<forall>i < width * height. pixel_stored 255 rasters out i"
    using rgbaBuffer_of_three_bands [OF assms, of 255 width height] by auto
  then show ?thesis
    by (simp add: convertRastersToPng_part_000_def pixel_stored_def)
qed

text \<open>
  C6, as it is stated, fails: the loop has no check of the number of bands and the code
  has no error of its own for it. With two bands and the 256 by 256 pixels of the
  handler, what the compositor throws is the \<open>TypeError\<close> of the runtime, for the
  read of an index of the missing third band, and \<open>fetchTiffData\<close> throws it on.
\<close>

theorem two_bands_counterexample:
  "length [[Num 1], [Num 2]] < 3 \<and>
   convertRastersToPng accepting_collaborators [[Num 1], [Num 2]] tileSize tileSize = Inl TypeError \<and>
   fetchTiffData two_band_collaborators (tileToWebMercator (Num 3) (Num 5) (Num 3)) tileSize
     = Inl TypeError \<and>
   (\<forall>name. Inl TypeError \<noteq> (Inl (Thrown name) :: exn + byte list))"
proof -
  have "rgbaBuffer_of 0 [[Num 1], [Num 2]] tileSize tileSize = Inl TypeError"
    unfolding rgbaBuffer_of_def by (rule rgba_loop_few_bands) (simp_all add: tileSize_def)
  then show ?thesis
    by (simp add: convertRastersToPng_def fetchTiffData_def two_band_collaborators_def)
qed

text \<open>
  C6, amended. For every band set of fewer than three bands and every width and height
  with \<open>width * height > 0\<close>, as in the handler, where both are 256, the compositor
  throws at the first pixel, on reading the missing band, the \<open>TypeError\<close> of the
  runtime; no buffer is produced and the encoder is not called. It is so in both copies
  of \<open>convertRastersToPng\<close>.
\<close>

theorem missing_band_throws:
  assumes "length rasters < 3" "0 < width * height"
  shows "rgbaBuffer_of 0 rasters width height = Inl TypeError \<and>
         convertRastersToPng env rasters width height = Inl TypeError \<and>
         convertRastersToPng_part_000 env rasters width height = Inl TypeError \<and>
         convertRastersToPng env rasters tileSize tileSize = Inl TypeError"
proof -
  have "rgbaBuffer_of alpha rasters width height = Inl TypeError" for alpha
    unfolding rgbaBuffer_of_def using assms by (rule rgba_loop_few_bands)
  moreover have "rgbaBuffer_of 0 rasters tileSize tileSize = Inl TypeError"
    unfolding rgbaBuffer_of_def using assms(1) by (rule rgba_loop_few_bands) (simp add: tileSize_def)
  ultimately show ?thesis
    by (simp add: convertRastersToPng_def convertRastersToPng_part_000_def)
qed

text \<open>Two bands of two samples, one pixel wide and two high.\<close>

theorem missing_band_throws_witness:
  "length [[Num 10, Num 11], [Num 20, Num 21]] < 3 \<and> (0 :: nat) < 1 * 2 \<and>
   rgbaBuffer_of 0 [[Num 10, Num 11], [Num 20, Num 21]] 1 2 = Inl TypeError \<and>
   convertRastersToPng accepting_collaborators [[Num 10, Num 11], [Num 20, Num 21]] 1 2
     = Inl TypeError"
proof -
  have bands: "length [[Num 10, Num 11], [Num 20, Num 21]] < 3" by simp
  have area: "(0 :: nat) < 1 * 2" by simp
  show ?thesis
    using missing_band_throws [OF bands area, of accepting_collaborators] bands area by blast
qed

section \<open>Properties of the handler\<close>

text \<open>\<open>NaN\<close> goes through the arithmetic of the tile addressing.\<close>

lemma nmul_NaN: "nmul a NaN = NaN" "nmul NaN b = NaN"
  by (simp_all add: nmul_def)

lemma nadd_NaN: "nadd a NaN = NaN" "nadd NaN b = NaN"
  by (simp_all add: nadd_def)

lemma nsub_NaN: "nsub a NaN = NaN" "nsub NaN b = NaN"
  by (simp_all add: nsub_def nneg_def nadd_NaN)

lemma getResolution_NaN: "getResolution NaN = NaN"
  by (simp add: getResolution_def Math_pow2_def nmul_NaN ndiv_NaN)

lemma tileToWebMercator_NaN_z:
  "tileToWebMercator x y NaN = (NaN, NaN, NaN, NaN)"
  by (simp add: tileToWebMercator_def getResolution_NaN nmul_NaN nsub_NaN Let_def)

lemma tileToWebMercator_NaN_x:
  "fst (tileToWebMercator NaN y z) = NaN"
  by (simp add: tileToWebMercator_def nmul_NaN nsub_NaN Let_def)

lemma tileToWebMercator_NaN_y:
  "fst (snd (tileToWebMercator x NaN z)) = NaN"
  by (simp add: tileToWebMercator_def nmul_NaN nsub_NaN nadd_NaN Let_def)

lemma parseInt_abc: "parseInt (Some (utf16 ''abc'')) = NaN"
  by (simp add: parseInt_def parseInt_string_def utf16_def isWhiteSpace_def digit_of_def)

lemma parseInt_png: "parseInt (Some (utf16 ''png'')) = NaN"
  by (simp add: parseInt_def parseInt_string_def utf16_def isWhiteSpace_def digit_of_def)

lemma parseInt_undefined: "parseInt None = NaN"
  by (simp add: parseInt_def parseInt_string_def utf16_def isWhiteSpace_def digit_of_def)

lemma statusCode_okResponse: "statusCode (okResponse d) = 200"
  by (simp add: okResponse_def)

lemma statusCode_errorResponse: "statusCode (errorResponse e) = 500"
  by (simp add: errorResponse_def)

lemma tile_with_parameters:
  assumes "pathParameters event = Some p"
  shows "tile env event =
           Inr (case fetchTiffData env
                   (tileToWebMercator (parseInt (p ''x'')) (parseInt (p ''y'')) (parseInt (p ''z'')))
                   tileSize of
              Inl e \<Rightarrow> errorResponse e
            | Inr d \<Rightarrow> okResponse d)"
  using assms by (simp add: tile_def try_catch_def tile_try_def Let_def split: sum.splits)

lemma tile_null_parameters:
  "tile env \<lparr>pathParameters = None\<rparr> = Inr (errorResponse TypeError)"
  by (simp add: tile_def try_catch_def tile_try_def)

text \<open>
  The stages of the pipeline. With at least one pixel the compositor throws exactly when
  there are fewer than three bands, so that the response is decided by the path
  parameters, the raster read, the number of bands and the encoder.
\<close>

lemma convertRastersToPng_stages:
  assumes "0 < width * height"
  shows "convertRastersToPng env rasters width height =
           (if length rasters < 3 then Inl TypeError
            else sharp_png env (projr (rgbaBuffer_of 0 rasters width height)) width height 4)"
    and "convertRastersToPng_part_000 env rasters width height =
           (if length rasters < 3 then Inl TypeError
            else sharp_png env (projr (rgbaBuffer_of 255 rasters width height)) width height 4)"
proof -
  have few: "rgbaBuffer_of alpha rasters width height = Inl TypeError"
    if "length rasters < 3" for alpha
    unfolding rgbaBuffer_of_def using that assms by (rule rgba_loop_few_bands)
  have three: "rgbaBuffer_of alpha rasters width height
                 = Inr (projr (rgbaBuffer_of alpha rasters width height))"
    if "\<not> length rasters < 3" for alpha
  proof -
    have "3 \<le> length rasters" using that by simp
    then obtain out where "rgbaBuffer_of alpha rasters width height = Inr out"
      using rgbaBuffer_of_three_bands by blast
    then show ?thesis by simp
  qed
  show "convertRastersToPng env rasters width height =
           (if length rasters < 3 then Inl TypeError
            else sharp_png env (projr (rgbaBuffer_of 0 rasters width height)) width height 4)"
  proof (cases "length rasters < 3")
    case True
    then show ?thesis by (simp add: convertRastersToPng_def few)
  next
    case False
    show ?thesis
      unfolding convertRastersToPng_def using False by (subst three [OF False]) simp
  qed
  show "convertRastersToPng_part_000 env rasters width height =
           (if length rasters < 3 then Inl TypeError
            else sharp_png env (projr (rgbaBuffer_of 255 rasters width height)) width height 4)"
  proof (cases "length rasters < 3")
    case True
    then show ?thesis by (simp add: convertRastersToPng_part_000_def few)
  next
    case False
    show ?thesis
      unfolding convertRastersToPng_part_000_def using False by (subst three [OF False]) simp
  qed
qed

lemma tile_stages:
  "tile env event =
     Inr (case pathParameters event of
            None \<Rightarrow> errorResponse TypeError
          | Some p \<Rightarrow>
              (case readRasters env (tileToWebMercator (parseInt (p ''x'')) (parseInt (p ''y''))
                                       (parseInt (p ''z''))) of
                 Inl e \<Rightarrow> errorResponse e
               | Inr rasters \<Rightarrow>
                   if length rasters < 3 then errorResponse TypeError
                   else (case sharp_png env (projr (rgbaBuffer_of 0 rasters tileSize tileSize))
                                tileSize tileSize 4 of
                           Inl e \<Rightarrow> errorResponse e
                         | Inr png \<Rightarrow> okResponse \<lparr>buffer = png, contentType = ''image/png''\<rparr>)))"
proof -
  have pos: "0 < tileSize * tileSize" by (simp add: tileSize_def)
  show ?thesis
    by (simp add: tile_def try_catch_def tile_try_def fetchTiffData_def Let_def
          convertRastersToPng_stages(1) [OF pos]
          split: option.splits sum.splits)
qed

lemma tile_part_000_stages:
  "tile_part_000 env event =
     Inr (case pathParameters event of
            None \<Rightarrow> errorResponse TypeError
          | Some p \<Rightarrow>
              (case readRasters env (bbox_part_000 (parseInt (p ''x'')) (parseInt (p ''y''))
                                       (parseInt (p ''z''))) of
                 Inl e \<Rightarrow> errorResponse e
               | Inr rasters \<Rightarrow>
                   if length rasters < 3 then errorResponse TypeError
                   else (case sharp_png env (projr (rgbaBuffer_of 255 rasters 256 256)) 256 256 4 of
                           Inl e \<Rightarrow> errorResponse e
                         | Inr png \<Rightarrow> okResponse \<lparr>buffer = png, contentType = ''image/png''\<rparr>)))"
proof -
  have pos: "(0 :: nat) < 256 * 256" by simp
  show ?thesis
    by (simp add: tile_part_000_def try_catch_def tile_try_part_000_def fetchTiffData_part_000_def
          Let_def convertRastersToPng_stages(2) [OF pos]
          split: option.splits sum.splits)
qed

lemma tile_part_000_status:
  "\<exists>response. tile_part_000 env event = Inr response \<and>
     (statusCode response = 200 \<or> statusCode response = 500)"
  unfolding tile_part_000_stages
  by (simp add: statusCode_okResponse statusCode_errorResponse split: option.splits sum.splits)

lemma tile_status:
  "\<exists>response. tile env event = Inr response \<and>
     (statusCode response = 200 \<or> statusCode response = 500)"
  unfolding tile_stages
  by (simp add: statusCode_okResponse statusCode_errorResponse split: option.splits sum.splits)

text \<open>
  C9, as it is stated, fails: a malformed address is not answered with status 500 when
  nothing in the pipeline throws on it. For the row \<open>png\<close>, which \<open>parseInt\<close>
  reads as \<open>NaN\<close>, and collaborators that accept the box, the status is 200.
\<close>

theorem unparsed_row_counterexample:
  "parseInt ([''z'' \<mapsto> utf16 ''3'', ''x'' \<mapsto> utf16 ''3'', ''y'' \<mapsto> utf16 ''png''] ''y'') = NaN \<and>
   tile accepting_collaborators unparsed_row_event
     = Inr (okResponse \<lparr>buffer = [], contentType = ''image/png''\<rparr>) \<and>
   statusCode (okResponse \<lparr>buffer = [], contentType = ''image/png''\<rparr>) = 200"
proof -
  have "tile accepting_collaborators unparsed_row_event
     = Inr (okResponse \<lparr>buffer = [], contentType = ''image/png''\<rparr>)"
    unfolding tile_stages by (simp add: accepting_collaborators_def unparsed_row_event_def)
  then show ?thesis
    using parseInt_png by (simp add: statusCode_okResponse)
qed

text \<open>
  C9, amended. For every event and whatever the collaborators do, \<open>tile\<close> returns a
  response and throws nothing, and the status code of the response is 200 or 500. The
  response is the error response, with status 500, when the path parameters are
  \<open>null\<close>, when the raster read throws, when the rasters have fewer than three
  bands, and when the encoder throws; otherwise it is the encoded tile, with status 200.
  The status is 200 exactly when the path parameters are there, the raster read returns
  at least three bands and the encoder returns; whether the address parses has no part
  in it. The earlier copy of the handler returns a response with status 200 or 500 too.
\<close>

theorem tile_never_throws:
  "(\<exists>response.
     tile env event = Inr response \<and>
     (statusCode response = 200 \<or> statusCode response = 500) \<and>
     response =
       (case pathParameters event of
          None \<Rightarrow> errorResponse TypeError
        | Some p \<Rightarrow>
            (case readRasters env (tileToWebMercator (parseInt (p ''x'')) (parseInt (p ''y''))
                                     (parseInt (p ''z''))) of
               Inl e \<Rightarrow> errorResponse e
             | Inr rasters \<Rightarrow>
                 if length rasters < 3 then errorResponse TypeError
                 else (case sharp_png env (projr (rgbaBuffer_of 0 rasters tileSize tileSize))
                              tileSize tileSize 4 of
                         Inl e \<Rightarrow> errorResponse e
                       | Inr png \<Rightarrow> okResponse \<lparr>buffer = png, contentType = ''image/png''\<rparr>))) \<and>
     (statusCode response = 200) =
       (\<exists>p rasters png.
          pathParameters event = Some p \<and>
          readRasters env (tileToWebMercator (parseInt (p ''x'')) (parseInt (p ''y''))
                             (parseInt (p ''z''))) = Inr rasters \<and>
          3 \<le> length rasters \<and>
          sharp_png env (projr (rgbaBuffer_of 0 rasters tileSize tileSize)) tileSize tileSize 4
            = Inr png)) \<and>
   (\<exists>response.
      tile_part_000 env event = Inr response \<and>
      (statusCode response = 200 \<or> statusCode response = 500))"
proof -
  let ?response = "case pathParameters event of
          None \<Rightarrow> errorResponse TypeError
        | Some p \<Rightarrow>
            (case readRasters env (tileToWebMercator (parseInt (p ''x'')) (parseInt (p ''y''))
                                     (parseInt (p ''z''))) of
               Inl e \<Rightarrow> errorResponse e
             | Inr rasters \<Rightarrow>
                 if length rasters < 3 then errorResponse TypeError
                 else (case sharp_png env (projr (rgbaBuffer_of 0 rasters tileSize tileSize))
                              tileSize tileSize 4 of
                         Inl e \<Rightarrow> errorResponse e
                       | Inr png \<Rightarrow> okResponse \<lparr>buffer = png, contentType = ''image/png''\<rparr>))"
  have t: "tile env event = Inr ?response"
    by (rule tile_stages)
  have s: "statusCode ?response = 200 \<or> statusCode ?response = 500"
    by (simp add: statusCode_okResponse statusCode_errorResponse split: option.splits sum.splits)
  have ok: "(statusCode ?response = 200) =
       (\<exists>p rasters png.
          pathParameters event = Some p \<and>
          readRasters env (tileToWebMercator (parseInt (p ''x'')) (parseInt (p ''y''))
                             (parseInt (p ''z''))) = Inr rasters \<and>
          3 \<le> length rasters \<and>
          sharp_png env (projr (rgbaBuffer_of 0 rasters tileSize tileSize)) tileSize tileSize 4
            = Inr png)"
    by (auto simp: statusCode_okResponse statusCode_errorResponse not_less
             split: option.splits sum.splits)
  from t s ok have "\<exists>response.
     tile env event = Inr response \<and>
     (statusCode response = 200 \<or> statusCode response = 500) \<and>
     response = ?response \<and>
     (statusCode response = 200) =
       (\<exists>p rasters png.
          pathParameters event = Some p \<and>
          readRasters env (tileToWebMercator (parseInt (p ''x'')) (parseInt (p ''y''))
                             (parseInt (p ''z''))) = Inr rasters \<and>
          3 \<le> length rasters \<and>
          sharp_png env (projr (rgbaBuffer_of 0 rasters tileSize tileSize)) tileSize tileSize 4
            = Inr png)"
    by blast
  then show ?thesis
    using tile_part_000_status [of env event] by (rule conjI)
qed

text \<open>
  C4, as it is stated, fails: the handler has no check of what \<open>parseInt\<close> returns.
  For the zoom \<open>abc\<close>, which \<open>parseInt\<close> reads as \<open>NaN\<close>, the answer is what the
  collaborators make of the box: the error of the raster read, with status 500, when
  the read throws, and a tile, with status 200, when the collaborators accept the box.
\<close>

theorem malformed_address_counterexample:
  "parseInt (Some (utf16 ''abc'')) = NaN \<and>
   tile failing_collaborators malformed_event = Inr (errorResponse (Thrown ''read failed'')) \<and>
   statusCode (errorResponse (Thrown ''read failed'')) = 500 \<and>
   tile accepting_collaborators malformed_event
     = Inr (okResponse \<lparr>buffer = [], contentType = ''image/png''\<rparr>) \<and>
   statusCode (okResponse \<lparr>buffer = [], contentType = ''image/png''\<rparr>) = 200"
proof -
  have failed: "tile failing_collaborators malformed_event
                  = Inr (errorResponse (Thrown ''read failed''))"
    unfolding tile_stages by (simp add: failing_collaborators_def malformed_event_def)
  have served: "tile accepting_collaborators malformed_event
                  = Inr (okResponse \<lparr>buffer = [], contentType = ''image/png''\<rparr>)"
    unfolding tile_stages by (simp add: accepting_collaborators_def malformed_event_def)
  show ?thesis
    using parseInt_abc failed served
    by (simp add: statusCode_okResponse statusCode_errorResponse)
qed

text \<open>
  C4, amended. For every request with path parameters of which the zoom, the column or
  the row is read by \<open>parseInt\<close> as \<open>NaN\<close>, the handler raises no failure of its own:
  the box it computes has \<open>NaN\<close> for \<open>minX\<close> or for \<open>minY\<close>, that box goes to
  \<open>fetchTiffData\<close>, and the response is the tile with status 200 if the fetch returns
  and the error response with status 500 if it throws. No exception leaves the handler.
\<close>

theorem malformed_address_reaches_fetch:
  assumes params: "pathParameters event = Some p"
    and malformed: "parseInt (p ''z'') = NaN \<or> parseInt (p ''x'') = NaN \<or> parseInt (p ''y'') = NaN"
  shows "\<exists>minX minY maxX maxY.
           tileToWebMercator (parseInt (p ''x'')) (parseInt (p ''y'')) (parseInt (p ''z''))
             = (minX, minY, maxX, maxY) \<and>
           (minX = NaN \<or> minY = NaN) \<and>
           tile env event = Inr (case fetchTiffData env (minX, minY, maxX, maxY) tileSize of
                                   Inl e \<Rightarrow> errorResponse e
                                 | Inr d \<Rightarrow> okResponse d) \<and>
           (\<exists>response. tile env event = Inr response \<and>
              (statusCode response = 200 \<or> statusCode response = 500))"
proof -
  let ?bbox = "tileToWebMercator (parseInt (p ''x'')) (parseInt (p ''y'')) (parseInt (p ''z''))"
  obtain minX minY maxX maxY where bbox: "?bbox = (minX, minY, maxX, maxY)"
    by (cases ?bbox) blast
  have "fst ?bbox = NaN \<or> fst (snd ?bbox) = NaN"
    using malformed
    by (auto simp: tileToWebMercator_NaN_z tileToWebMercator_NaN_x tileToWebMercator_NaN_y)
  then have nan: "minX = NaN \<or> minY = NaN"
    by (simp add: bbox)
  have "tile env event = Inr (case fetchTiffData env (minX, minY, maxX, maxY) tileSize of
                               Inl e \<Rightarrow> errorResponse e
                             | Inr d \<Rightarrow> okResponse d)"
    using tile_with_parameters [OF params, of env] by (simp add: bbox)
  then show ?thesis
    using bbox nan tile_status [of env event] by blast
qed

text \<open>The request for \<open>/abc/1/2\<close>, with a raster read that throws.\<close>

theorem malformed_address_reaches_fetch_witness:
  "pathParameters malformed_event
     = Some [''z'' \<mapsto> utf16 ''abc'', ''x'' \<mapsto> utf16 ''1'', ''y'' \<mapsto> utf16 ''2''] \<and>
   parseInt ([''z'' \<mapsto> utf16 ''abc'', ''x'' \<mapsto> utf16 ''1'', ''y'' \<mapsto> utf16 ''2''] ''z'') = NaN \<and>
   (\<exists>response. tile failing_collaborators malformed_event = Inr response \<and>
      (statusCode response = 200 \<or> statusCode response = 500))"
proof -
  let ?p = "[''z'' \<mapsto> utf16 ''abc'', ''x'' \<mapsto> utf16 ''1'', ''y'' \<mapsto> utf16 ''2'']"
  have params: "pathParameters malformed_event = Some ?p"
    by (simp add: malformed_event_def)
  have nan: "parseInt (?p ''z'') = NaN"
    using parseInt_abc by simp
  then have malformed:
    "parseInt (?p ''z'') = NaN \<or> parseInt (?p ''x'') = NaN \<or> parseInt (?p ''y'') = NaN"
    by (rule disjI1)
  show ?thesis
    using malformed_address_reaches_fetch [OF params malformed, of failing_collaborators]
          params nan
    by blast
qed

section \<open>The earlier copy\<close>

text \<open>
  In \<open>unnamed/part_000\<close> the resolution is \<open>0.00028 * Math.pow(2, z)\<close>, which
  doubles with the zoom. The product is exact up to zoom 1000 at least.
\<close>

lemma fl_resolution_part_000: "fl 0.00028 = Num (2582544170319337 / 9223372036854775808)"
  using fl_near [of "- 12" "0.00028" "- 64" 5165088340638674] by simp

lemma resolution_part_000_nat:
  assumes "z \<le> 1000"
  shows "resolution_part_000 (Num (real z)) = Num (2582544170319337 / 9223372036854775808 * 2 ^ z)"
proof -
  have "fl (of_int 2582544170319337 * 2 powi (int z - 63))
          = Num (of_int 2582544170319337 * 2 powi (int z - 63))"
  proof (rule fl_exact [where m = 2582544170319337 and k = "int z - 63"])
    have "(2 :: real) powi (int z - 63) \<le> 2 powi 937"
      using assms by (intro two_powi_le) simp
    then have "2582544170319337 * (2 :: real) powi (int z - 63) \<le> 2 ^ 53 * 2 powi 937"
      by (intro mult_mono) simp_all
    also have "\<dots> = 2 powi (53 + 937)"
      by (simp only: two_powi_add) simp
    also have "\<dots> < 2 powi 1024"
      by (intro two_powi_less) simp
    finally show "\<bar>of_int 2582544170319337 * (2 :: real) powi (int z - 63)\<bar> < 2 ^ 1024"
      using two_powi_pos [of "int z - 63"] by simp
  qed simp_all
  moreover have "(2 :: real) powi (int z - 63) = 2 ^ z / 9223372036854775808"
    by (simp add: two_powi_diff)
  ultimately have f: "fl (2582544170319337 / 9223372036854775808 * 2 ^ z)
                     = Num (2582544170319337 / 9223372036854775808 * 2 ^ z)"
    by simp
  have p: "Math_pow2 (Num (real z)) = Num (2 ^ z)"
    using assms by (intro Math_pow2_nat) simp
  show ?thesis
    unfolding resolution_part_000_def fl_resolution_part_000 p nmul_Num
    using f by simp
qed

lemma resolution_part_000_doubles:
  assumes "z < 1000"
  shows "value_of (resolution_part_000 (Num (real (z + 1))))
           = 2 * value_of (resolution_part_000 (Num (real z)))"
  using assms resolution_part_000_nat [of z] resolution_part_000_nat [of "z + 1"]
  by (simp add: value_of_def)

end
